theory Spec2Isabelle
  imports Complex_Main "HOL-Library.Multiset"
begin

chapter \<open>The temporal layout engine of github-widgets\<close>

text \<open>
  A shallow embedding of the experience-timeline request validator and generator
  (\<^verbatim>\<open>validateExperienceCSV\<close>, \<^verbatim>\<open>generateExperienceTimeline\<close>) and of the
  two helpers of the activity chart (\<^verbatim>\<open>niceYTicks\<close>, \<^verbatim>\<open>computePathLength\<close>).

  Conventions. JavaScript strings are modelled as \<^typ>\<open>string\<close>, one \<^typ>\<open>char\<close> per
  code unit below 256. Instants are the millisecond time values of \<^verbatim>\<open>Date\<close>
  objects, as \<^typ>\<open>int\<close>. Pixel coordinates, durations and path lengths are
  JavaScript numbers; they are modelled in exact real arithmetic, so the rounding of
  IEEE doubles is not part of the model.
\<close>

section \<open>Strings\<close>

text \<open>
  \<^verbatim>\<open>String.prototype.trim\<close> removes white space and line terminators from both ends.
  Below code unit 256 these are tab, line feed, vertical tab, form feed, carriage
  return, space and the no-break space.
\<close>

definition is_space :: "char \<Rightarrow> bool" where
  "is_space c = (c = CHR 0x09 \<or> c = CHR 0x0A \<or> c = CHR 0x0B \<or> c = CHR 0x0C \<or>
                 c = CHR 0x0D \<or> c = CHR 0x20 \<or> c = CHR 0xA0)"

definition trim :: "string \<Rightarrow> string" where
  "trim s = rev (dropWhile is_space (rev (dropWhile is_space s)))"

text \<open>
  \<^verbatim>\<open>s.split(sep)\<close> for a one-character separator: the pieces between the
  separators, so one piece more than there are separators; the empty string splits
  into one empty piece.
\<close>

fun split_on :: "char \<Rightarrow> string \<Rightarrow> string list" where
  "split_on sep [] = [[]]"
| "split_on sep (c # cs) =
     (if c = sep then [] # split_on sep cs
      else (case split_on sep cs of [] \<Rightarrow> [[c]] | r # rs \<Rightarrow> (c # r) # rs))"

text \<open>\<^verbatim>\<open>String.prototype.toLowerCase\<close> on code units below 256.\<close>

definition lower_char :: "char \<Rightarrow> char" where
  "lower_char c =
     (let n = (of_char c :: nat)
      in if (65 \<le> n \<and> n \<le> 90) \<or> (192 \<le> n \<and> n \<le> 222 \<and> n \<noteq> 215)
         then char_of (n + 32) else c)"

definition toLowerCase :: "string \<Rightarrow> string" where
  "toLowerCase s = map lower_char s"

definition is_digit :: "char \<Rightarrow> bool" where
  "is_digit c = (48 \<le> (of_char c :: nat) \<and> (of_char c :: nat) \<le> 57)"

definition digit_val :: "char \<Rightarrow> int" where
  "digit_val c = int (of_char c) - 48"

text \<open>
  \<^verbatim>\<open>parseInt(s, 10)\<close>: leading white space is skipped, one sign is read, then the
  longest run of decimal digits; \<^term>\<open>None\<close> is \<^verbatim>\<open>NaN\<close> (no digit found).
\<close>

definition parseInt :: "string \<Rightarrow> int option" where
  "parseInt s =
     (let t = dropWhile is_space s;
          neg = (t \<noteq> [] \<and> hd t = CHR ''-'');
          u = (if t \<noteq> [] \<and> (hd t = CHR ''-'' \<or> hd t = CHR ''+'') then tl t else t);
          ds = takeWhile is_digit u
      in if ds = [] then None
         else Some ((if neg then - 1 else 1) * foldl (\<lambda>a c. 10 * a + digit_val c) 0 ds))"

section \<open>Dates\<close>

subsection \<open>\<^verbatim>\<open>Date.UTC\<close>\<close>

text \<open>
  The generator builds every instant with \<^verbatim>\<open>new Date(Date.UTC(y, m, d))\<close>. The
  built-in is modelled after the ECMAScript definition (MakeFullYear, MakeDay,
  MakeDate with a zero time of day, TimeClip) on exact integers; the arguments the
  validator lets through are far below \<open>2^53\<close>. A \<^verbatim>\<open>Date\<close> object either holds
  a finite time value in milliseconds or is an Invalid Date.
\<close>

datatype jsdate = InvalidDate | Instant int

definition msPerDay :: int where
  "msPerDay = 86400000"

definition DayFromYear :: "int \<Rightarrow> int" where
  "DayFromYear y =
     365 * (y - 1970) + (y - 1969) div 4 - (y - 1901) div 100 + (y - 1601) div 400"

definition InLeapYear :: "int \<Rightarrow> bool" where
  "InLeapYear y = (y mod 4 = 0 \<and> (y mod 100 \<noteq> 0 \<or> y mod 400 = 0))"

text \<open>The day of the year on which month \<open>mn\<close> (0 to 11) starts.\<close>

definition month_start :: "int \<Rightarrow> bool \<Rightarrow> int" where
  "month_start mn leap =
     [0, 31, 59, 90, 120, 151, 181, 212, 243, 273, 304, 334] ! nat mn
       + (if leap \<and> 2 \<le> mn then 1 else 0)"

definition MakeFullYear :: "int \<Rightarrow> int" where
  "MakeFullYear y = (if 0 \<le> y \<and> y \<le> 99 then 1900 + y else y)"

definition MakeDay :: "int \<Rightarrow> int \<Rightarrow> int \<Rightarrow> int" where
  "MakeDay year month dt =
     (let ym = year + month div 12; mn = month mod 12
      in DayFromYear ym + month_start mn (InLeapYear ym) + dt - 1)"

definition TimeClip :: "int \<Rightarrow> jsdate" where
  "TimeClip t = (if \<bar>t\<bar> \<le> 8640000000000000 then Instant t else InvalidDate)"

text \<open>A \<^verbatim>\<open>NaN\<close> argument (\<^term>\<open>None\<close>) gives an Invalid Date.\<close>

definition Date_UTC :: "int option \<Rightarrow> int option \<Rightarrow> int option \<Rightarrow> jsdate" where
  "Date_UTC y m d =
     (case (y, m, d) of
        (Some yv, Some mv, Some dv) \<Rightarrow> TimeClip (MakeDay (MakeFullYear yv) mv dv * msPerDay)
      | _ \<Rightarrow> InvalidDate)"

subsection \<open>\<^verbatim>\<open>parseYMD\<close>\<close>

text \<open>
  \<^verbatim>\<open>
  function parseYMD(s) {
    if (!s) return null;
    const parts = s.split("-");
    const y = parseInt(parts[0], 10);
    const m = parts[1] ? parseInt(parts[1], 10) - 1 : 0;
    const d = parts[2] ? parseInt(parts[2], 10) : 1;
    return new Date(Date.UTC(y, m, d));
  }
  \<close>
  \<^term>\<open>None\<close> is \<^verbatim>\<open>null\<close>. A part that is missing or empty is falsy.
\<close>

definition part :: "string list \<Rightarrow> nat \<Rightarrow> string" where
  "part parts k = (if k < length parts then parts ! k else [])"

definition parseYMD :: "string \<Rightarrow> jsdate option" where
  "parseYMD s =
     (if s = [] then None
      else
        let parts = split_on CHR ''-'' s;
            y = parseInt (part parts 0);
            m = (if part parts 1 \<noteq> [] then map_option (\<lambda>v. v - 1) (parseInt (part parts 1))
                 else Some 0);
            d = (if part parts 2 \<noteq> [] then parseInt (part parts 2) else Some 1)
        in Some (Date_UTC y m d))"

subsection \<open>The three date shapes, as the specification words them\<close>

text \<open>
  \<open>YYYY\<close>, \<open>YYYY-MM\<close> and \<open>YYYY-MM-DD\<close>, with the year, month and day they
  denote: a missing month is January (month 1, index 0 for \<^verbatim>\<open>Date.UTC\<close>) and a
  missing day is the 1st. \<open>utc_ms y m d\<close> is the time value \<^verbatim>\<open>Date.UTC\<close> gives
  the year \<open>y\<close>, the month \<open>m\<close> counted from 1 and the day \<open>d\<close>.
\<close>

definition digits_value :: "string \<Rightarrow> int" where
  "digits_value ds = foldl (\<lambda>a c. 10 * a + digit_val c) 0 ds"

definition shape_Y :: "string \<Rightarrow> bool" where
  "shape_Y s = (length s = 4 \<and> list_all is_digit s)"

definition shape_YM :: "string \<Rightarrow> bool" where
  "shape_YM s = (length s = 7 \<and> list_all is_digit (take 4 s) \<and> s ! 4 = CHR ''-'' \<and>
                 list_all is_digit (drop 5 s))"

definition shape_YMD :: "string \<Rightarrow> bool" where
  "shape_YMD s = (length s = 10 \<and> list_all is_digit (take 4 s) \<and> s ! 4 = CHR ''-'' \<and>
                  list_all is_digit (take 2 (drop 5 s)) \<and> s ! 7 = CHR ''-'' \<and>
                  list_all is_digit (drop 8 s))"

definition year_of :: "string \<Rightarrow> int" where
  "year_of s = digits_value (take 4 s)"

definition month_of :: "string \<Rightarrow> int" where
  "month_of s = (if 7 \<le> length s then digits_value (take 2 (drop 5 s)) else 1)"

definition day_of :: "string \<Rightarrow> int" where
  "day_of s = (if 10 \<le> length s then digits_value (take 2 (drop 8 s)) else 1)"

definition utc_ms :: "int \<Rightarrow> int \<Rightarrow> int \<Rightarrow> int" where
  "utc_ms y m d = MakeDay (MakeFullYear y) (m - 1) d * msPerDay"


subsection \<open>The calendar, counted day by day\<close>









section \<open>Request validation\<close>

text \<open>
  \<^verbatim>\<open>validateExperienceCSV\<close> throws an \<^verbatim>\<open>Error\<close> with a message; each message is
  a constructor here, row numbers included.
\<close>

datatype csv_error =
    CsvRequired                     \<comment> \<open>experienceCSV parameter is required\<close>
  | TooFewLines                     \<comment> \<open>CSV must contain at least a header and one data row\<close>
  | BadHeader                       \<comment> \<open>CSV header must be: company,start,end,title,logo,color\<close>
  | NoEntries                       \<comment> \<open>CSV must contain at least one experience entry\<close>
  | BadFieldCount nat nat nat       \<comment> \<open>Row r has incorrect number of fields (expected e, got g)\<close>
  | CompanyRequired nat             \<comment> \<open>Row r: company is required\<close>
  | StartRequired nat               \<comment> \<open>Row r: start date is required\<close>
  | BadStartFormat nat              \<comment> \<open>Row r: start date must be in format YYYY, YYYY-MM, or YYYY-MM-DD\<close>
  | BadEndFormat nat                \<comment> \<open>Row r: end date must be in format ... (or empty for present)\<close>

text \<open>
  \<^verbatim>\<open>/^\d{4}(-\d{2}(-\d{2})?)?$/\<close>. \<open>take_digits n s\<close> reads exactly \<open>n\<close> decimal
  digits and returns the rest.
\<close>

definition take_digits :: "nat \<Rightarrow> string \<Rightarrow> string option" where
  "take_digits n s =
     (if n \<le> length s \<and> list_all is_digit (take n s) then Some (drop n s) else None)"

definition dash_digits :: "string \<Rightarrow> string option" where
  "dash_digits s =
     (case s of [] \<Rightarrow> None
      | c # r \<Rightarrow> if c = CHR ''-'' then take_digits 2 r else None)"

definition dateRegex_test :: "string \<Rightarrow> bool" where
  "dateRegex_test s =
     (case take_digits 4 s of
        None \<Rightarrow> False
      | Some r1 \<Rightarrow>
          r1 = [] \<or>
          (case dash_digits r1 of
             None \<Rightarrow> False
           | Some r2 \<Rightarrow>
               r2 = [] \<or>
               (case dash_digits r2 of None \<Rightarrow> False | Some r3 \<Rightarrow> r3 = [])))"

definition allFields :: "string list" where
  "allFields = [''company'', ''start'', ''end'', ''title'', ''logo'', ''color'']"

text \<open>The loop over the data rows; \<open>i\<close> is the loop index, the first failing check throws.\<close>

fun validate_rows :: "nat \<Rightarrow> string list \<Rightarrow> csv_error + unit" where
  "validate_rows i [] = Inr ()"
| "validate_rows i (row # rows) =
     (let fields = split_on CHR '','' row
      in if length fields \<noteq> length allFields
         then Inl (BadFieldCount (i + 2) (length allFields) (length fields))
         else
           let company = trim (fields ! 0); start = trim (fields ! 1)
           in if company = [] then Inl (CompanyRequired (i + 2))
              else if start = [] then Inl (StartRequired (i + 2))
              else if \<not> dateRegex_test start then Inl (BadStartFormat (i + 2))
              else
                let end = trim (fields ! 2)
                in if end \<noteq> [] \<and> \<not> dateRegex_test end then Inl (BadEndFormat (i + 2))
                   else validate_rows (i + 1) rows)"

definition data_rows :: "string \<Rightarrow> string list" where
  "data_rows csvString =
     filter (\<lambda>line. trim line \<noteq> []) (tl (split_on CHR 0x0A (trim csvString)))"

definition validateExperienceCSV :: "string \<Rightarrow> csv_error + unit" where
  "validateExperienceCSV csvString =
     (if csvString = [] then Inl CsvRequired
      else
        let lines = split_on CHR 0x0A (trim csvString)
        in if length lines < 2 then Inl TooFewLines
           else
             let header = trim (toLowerCase (hd lines));
                 headerFields = map trim (split_on CHR '','' header);
                 hasValidHeader =
                   (length headerFields = length allFields \<and>
                    list_all (\<lambda>(field, index). field = allFields ! index)
                      (zip headerFields [0..<length headerFields]))
             in if \<not> hasValidHeader then Inl BadHeader
                else if data_rows csvString = [] then Inl NoEntries
                else validate_rows 0 (data_rows csvString))"

text \<open>
  \<^verbatim>\<open>
  try { validateExperienceCSV(decodedCSV); }
  catch (error) { return createValidationErrorSVG('experienceCSV', error.message); }
  const cacheKey = generateCacheKey('experience-timeline', decodedCSV, ...options...);
  const cachedResponse = cache.get(cacheKey);
  if (cachedResponse) { return { statusCode: 200, ..., body: cachedResponse }; }
  const svg = await generateExperienceTimeline(decodedCSV, {...});
  cache.set(cacheKey, svg);
  return { statusCode: 200, ..., body: svg };
  ... } catch (error) { return handleError(error); }
  \<close>
  The handler, from the decoded query parameter on (a missing parameter and a failing
  URI decoding are answered before it). The generator is a parameter; what it throws
  is answered by \<^verbatim>\<open>handleError\<close>. The cache (\<^verbatim>\<open>utils/cache.js\<close>, which is
  not among the sources) is a parameter too: a map from the cache key to the stored
  SVG, with the decoded CSV standing for the key that is built from it and from the
  options of the request. The handler returns its response and the cache it leaves.
\<close>

datatype ('err, 'svg) response =
    ValidationErrorSVG csv_error
  | ErrorResponse 'err
  | SvgBody 'svg

definition handler ::
  "(string \<Rightarrow> 'err + 'svg) \<Rightarrow> (string \<rightharpoonup> 'svg) \<Rightarrow> string
     \<Rightarrow> ('err, 'svg) response \<times> (string \<rightharpoonup> 'svg)" where
  "handler generate cache decodedCSV =
     (case validateExperienceCSV decodedCSV of
        Inl e \<Rightarrow> (ValidationErrorSVG e, cache)
      | Inr u \<Rightarrow>
          (case cache decodedCSV of
             Some cachedResponse \<Rightarrow> (SvgBody cachedResponse, cache)
           | None \<Rightarrow>
               (case generate decodedCSV of
                  Inl err \<Rightarrow> (ErrorResponse err, cache)
                | Inr svg \<Rightarrow> (SvgBody svg, cache(decodedCSV \<mapsto> svg)))))"

section \<open>The generator: parsing the rows\<close>

text \<open>
  \<^verbatim>\<open>d3.csvParse\<close> hands the generator one object per data row, with the six
  columns as strings (a missing column reads as \<^verbatim>\<open>undefined\<close>, which
  \<^verbatim>\<open>r.x || ""\<close> turns into the empty string).
\<close>

record csv_row =
  r_company :: string
  r_start :: string
  r_end :: string
  r_title :: string
  r_logo :: string
  r_color :: string

text \<open>
  \<^verbatim>\<open>
  const items = rows.map((r, i) => {
    const startRaw = (r.start || "").trim();
    const endRaw = (r.end || "").trim();
    const start = parseYMD(startRaw);
    if (!start || Number.isNaN(start.getTime())) {
      throw new Error(`Invalid start date in row ${i + 1}: "${r.start}"`);
    }
    const end = endRaw ? parseYMD(endRaw) : null;
    return { id: i, company: (r.company || "").trim(), title: (r.title || "").trim(),
             logo: (r.logo || "").trim(), colorRaw: (r.color || "").trim(),
             start, end, startRaw, endRaw };
  });
  \<close>
  Only the start is checked. The end of the object is \<^verbatim>\<open>null\<close>
  (\<^term>\<open>None\<close>) or a \<^verbatim>\<open>Date\<close>, which may be an Invalid Date.
\<close>

datatype gen_error = InvalidStartDate nat

definition parse_start :: "nat \<Rightarrow> string \<Rightarrow> gen_error + int" where
  "parse_start i startRaw =
     (case parseYMD startRaw of
        None \<Rightarrow> Inl (InvalidStartDate (i + 1))
      | Some InvalidDate \<Rightarrow> Inl (InvalidStartDate (i + 1))
      | Some (Instant t) \<Rightarrow> Inr t)"

definition parse_end :: "string \<Rightarrow> jsdate option" where
  "parse_end endRaw = (if endRaw \<noteq> [] then parseYMD endRaw else None)"

record parsed_item =
  p_id :: nat
  p_company :: string
  p_title :: string
  p_logo :: string
  p_colorRaw :: string
  p_start :: int
  p_end :: "jsdate option"
  p_startRaw :: string
  p_endRaw :: string

definition make_item :: "nat \<Rightarrow> csv_row \<Rightarrow> gen_error + parsed_item" where
  "make_item i r =
     (let startRaw = trim (r_start r); endRaw = trim (r_end r)
      in case parse_start i startRaw of
           Inl e \<Rightarrow> Inl e
         | Inr start \<Rightarrow>
             Inr \<lparr>p_id = i, p_company = trim (r_company r), p_title = trim (r_title r),
                  p_logo = trim (r_logo r), p_colorRaw = trim (r_color r),
                  p_start = start, p_end = parse_end endRaw,
                  p_startRaw = startRaw, p_endRaw = endRaw\<rparr>)"

text \<open>\<^verbatim>\<open>rows.map((r, i) => ...)\<close>: the first throw ends the call.\<close>

fun make_items :: "nat \<Rightarrow> csv_row list \<Rightarrow> gen_error + parsed_item list" where
  "make_items i [] = Inr []"
| "make_items i (r # rs) =
     (case make_item i r of
        Inl e \<Rightarrow> Inl e
      | Inr it \<Rightarrow> (case make_items (i + 1) rs of Inl e \<Rightarrow> Inl e | Inr its \<Rightarrow> Inr (it # its)))"

text \<open>
  The layout below is modelled for intervals whose dates parsed: the start is an
  instant, the end is an instant or absent. \<open>layout_item\<close> reads such an interval off
  the generator's object, field by field; an object whose end is an Invalid Date has
  none (every coordinate the generator derives from that end is \<^verbatim>\<open>NaN\<close>, which
  the layout model does not cover).
\<close>

record item =
  it_id :: nat
  it_company :: string
  it_title :: string
  it_logo :: string
  it_colorRaw :: string
  it_start :: int
  it_end :: "int option"
  it_startRaw :: string
  it_endRaw :: string

definition layout_item :: "parsed_item \<Rightarrow> item option" where
  "layout_item p =
     (case p_end p of
        Some InvalidDate \<Rightarrow> None
      | other \<Rightarrow>
          Some \<lparr>it_id = p_id p, it_company = p_company p, it_title = p_title p,
                it_logo = p_logo p, it_colorRaw = p_colorRaw p, it_start = p_start p,
                it_end = (case other of Some (Instant e) \<Rightarrow> Some e | _ \<Rightarrow> None),
                it_startRaw = p_startRaw p, it_endRaw = p_endRaw p\<rparr>)"

fun layout_items :: "parsed_item list \<Rightarrow> item list option" where
  "layout_items [] = Some []"
| "layout_items (p # ps) =
     (case layout_item p of
        None \<Rightarrow> None
      | Some it \<Rightarrow> (case layout_items ps of None \<Rightarrow> None | Some its \<Rightarrow> Some (it # its)))"

section \<open>The generator: sorting and lane allocation\<close>

text \<open>\<^verbatim>\<open>(it.end || now).getTime()\<close>: an absent end counts as now.\<close>

definition effective_end :: "int \<Rightarrow> item \<Rightarrow> int" where
  "effective_end now it = (case it_end it of None \<Rightarrow> now | Some e \<Rightarrow> e)"

text \<open>
  \<^verbatim>\<open>
  items.sort((a, b) => {
    if (a.start.getTime() !== b.start.getTime()) return a.start - b.start;
    const aEnd = (a.end || now).getTime();
    const bEnd = (b.end || now).getTime();
    return bEnd - aEnd;
  });
  \<close>
\<close>

definition compare_items :: "int \<Rightarrow> item \<Rightarrow> item \<Rightarrow> int" where
  "compare_items now a b =
     (if it_start a \<noteq> it_start b then it_start a - it_start b
      else effective_end now b - effective_end now a)"

text \<open>
  \<^verbatim>\<open>Array.prototype.sort\<close> is stable, and with a consistent comparator (this one
  is: a lexicographic order on integers) its result is the one stable ordering of the
  input. That ordering is computed here by insertion, each element going in front of
  the first element it does not follow.
\<close>

fun insort_by :: "('a \<Rightarrow> 'a \<Rightarrow> int) \<Rightarrow> 'a \<Rightarrow> 'a list \<Rightarrow> 'a list" where
  "insort_by cmp x [] = [x]"
| "insort_by cmp x (y # ys) = (if cmp x y \<le> 0 then x # y # ys else y # insort_by cmp x ys)"

definition sort_by :: "('a \<Rightarrow> 'a \<Rightarrow> int) \<Rightarrow> 'a list \<Rightarrow> 'a list" where
  "sort_by cmp xs = foldr (insort_by cmp) xs []"

text \<open>
  \<^verbatim>\<open>
  const laneLastEnd = [];
  for (const it of items) {
    const s = it.start.getTime();
    const e = (it.end || now).getTime();
    let assigned = -1;
    for (let li = 0; li < laneLastEnd.length; li++) {
      if (laneLastEnd[li] <= s) { assigned = li; laneLastEnd[li] = e; break; }
    }
    if (assigned === -1) { laneLastEnd.push(e); assigned = laneLastEnd.length - 1; }
    it.lane = assigned;
  }
  \<close>
  \<open>scan_lanes\<close> is the inner loop from index \<open>li\<close> on; \<^term>\<open>None\<close> is
  \<^verbatim>\<open>assigned === -1\<close>.
\<close>

function scan_lanes :: "int list \<Rightarrow> int \<Rightarrow> nat \<Rightarrow> nat option" where
  "scan_lanes laneLastEnd s li =
     (if li < length laneLastEnd
      then (if laneLastEnd ! li \<le> s then Some li else scan_lanes laneLastEnd s (li + 1))
      else None)"
  by pat_completeness auto
termination
  by (relation "measure (\<lambda>(laneLastEnd, s, li). length laneLastEnd - li)") auto

declare scan_lanes.simps [simp del]

definition assign_lane :: "int list \<Rightarrow> int \<Rightarrow> int \<Rightarrow> nat \<times> int list" where
  "assign_lane laneLastEnd s e =
     (case scan_lanes laneLastEnd s 0 of
        Some li \<Rightarrow> (li, laneLastEnd[li := e])
      | None \<Rightarrow> (length laneLastEnd, laneLastEnd @ [e]))"

text \<open>The outer loop; each item is returned with its lane (\<^verbatim>\<open>it.lane\<close>).\<close>

fun allocate_loop :: "int \<Rightarrow> int list \<Rightarrow> item list \<Rightarrow> (item \<times> nat) list" where
  "allocate_loop now laneLastEnd [] = []"
| "allocate_loop now laneLastEnd (it # its) =
     (case assign_lane laneLastEnd (it_start it) (effective_end now it) of
        (assigned, laneLastEnd') \<Rightarrow> (it, assigned) # allocate_loop now laneLastEnd' its)"

definition allocate_lanes :: "int \<Rightarrow> item list \<Rightarrow> (item \<times> nat) list" where
  "allocate_lanes now items = allocate_loop now [] (sort_by (compare_items now) items)"

text \<open>
  Two intervals overlap when their ranges \<open>[start, end-or-now)\<close> share an instant.
\<close>

definition overlaps :: "int \<Rightarrow> item \<Rightarrow> item \<Rightarrow> bool" where
  "overlaps now a b =
     (max (it_start a) (it_start b) < min (effective_end now a) (effective_end now b))"

text \<open>The sort policy as the specification words it: start ascending, then effective end descending.\<close>

definition precedes :: "int \<Rightarrow> item \<Rightarrow> item \<Rightarrow> bool" where
  "precedes now a b =
     (it_start a < it_start b \<or>
      (it_start a = it_start b \<and> effective_end now b \<le> effective_end now a))"

section \<open>The generator: scale, geometry, labels and animation\<close>

subsection \<open>Options\<close>

text \<open>
  \<^verbatim>\<open>
  const { width = 1200, heightPerLane = 80,
          margin = { top: 100, right: 30, bottom: 30, left: 30 },
          embedLogos = true, includeStartDate = true, includeEndDate = true,
          animationTotalDuration = 5, baseFontSize = 12 } = opts;
  \<close>
\<close>

record margins =
  m_top :: real
  m_right :: real
  m_bottom :: real
  m_left :: real

record options =
  o_width :: real
  o_heightPerLane :: real
  o_margin :: margins
  o_embedLogos :: bool
  o_includeStartDate :: bool
  o_includeEndDate :: bool
  o_animationTotalDuration :: real
  o_baseFontSize :: real

definition default_options :: options where
  "default_options =
     \<lparr>o_width = 1200, o_heightPerLane = 80,
      o_margin = \<lparr>m_top = 100, m_right = 30, m_bottom = 30, m_left = 30\<rparr>,
      o_embedLogos = True, o_includeStartDate = True, o_includeEndDate = True,
      o_animationTotalDuration = 5, o_baseFontSize = 12\<rparr>"

subsection \<open>Time scale\<close>

text \<open>
  \<^verbatim>\<open>
  const minTime = d3.min(items, (d) => d.start);
  const maxTime = d3.max(items, (d) => (d.end ? d.end : now));
  const xScale = d3.scaleTime().domain([minTime, maxTime])
                   .range([margin.left, width - margin.right]);
  \<close>
\<close>

record time_scale =
  domainStart :: int
  domainEnd :: int
  rangeStart :: real
  rangeEnd :: real

text \<open>
  Modelled from the spec: \<^verbatim>\<open>d3.min\<close> and \<^verbatim>\<open>d3.max\<close>, functions of the d3
  library, which is not part of the sources. "\<open>domainStart = min(start)\<close>,
  \<open>domainEnd = max(end-or-now)\<close>"; of no values there is no minimum
  (\<^verbatim>\<open>undefined\<close>, here \<^term>\<open>None\<close>).
\<close>

fun d3_min :: "int list \<Rightarrow> int option" where
  "d3_min [] = None"
| "d3_min (v # vs) = (case d3_min vs of None \<Rightarrow> Some v | Some m \<Rightarrow> Some (min v m))"

fun d3_max :: "int list \<Rightarrow> int option" where
  "d3_max [] = None"
| "d3_max (v # vs) = (case d3_max vs of None \<Rightarrow> Some v | Some m \<Rightarrow> Some (max v m))"

text \<open>
  Modelled from the spec: the scale \<^verbatim>\<open>d3.scaleTime().domain(...).range(...)\<close>, a
  function of the d3 library, which is not part of the sources.
  "\<open>project(t) = rangeStart + (t - domainStart) / (domainEnd - domainStart) *
  (rangeEnd - rangeStart)\<close>"; "when domain width is zero, \<open>project\<close> returns the
  midpoint of the pixel range for every instant".
\<close>

definition project :: "time_scale \<Rightarrow> int \<Rightarrow> real" where
  "project sc t =
     (if domainEnd sc = domainStart sc then (rangeStart sc + rangeEnd sc) / 2
      else rangeStart sc +
           real_of_int (t - domainStart sc) / real_of_int (domainEnd sc - domainStart sc)
             * (rangeEnd sc - rangeStart sc))"

text \<open>The scale of a render; there is none (its domain is undefined) when there are no items.\<close>

definition x_scale :: "options \<Rightarrow> int \<Rightarrow> item list \<Rightarrow> time_scale option" where
  "x_scale opts now items =
     (case (d3_min (map it_start items), d3_max (map (effective_end now) items)) of
        (Some minTime, Some maxTime) \<Rightarrow>
          Some \<lparr>domainStart = minTime, domainEnd = maxTime,
                rangeStart = m_left (o_margin opts),
                rangeEnd = o_width opts - m_right (o_margin opts)\<rparr>
      | _ \<Rightarrow> None)"

subsection \<open>Animation schedule\<close>

text \<open>
  \<^verbatim>\<open>
  const baselineDuration = animationTotalDuration * 0.15;
  const datesDuration = animationTotalDuration * 0.1;
  const jobsDuration = animationTotalDuration * 0.75;
  const datesDelay = baselineDuration;
  const jobsStartTime = datesDelay + datesDuration;
  const durationPerJob = jobsDuration / Math.max(1, items.length);
  const jobPartAnimDuration = durationPerJob * 0.5;
  ...
  const delay = jobsStartTime + i * durationPerJob;
  const closingConnectorDelay = delay + jobPartAnimDuration;
  \<close>
\<close>

record animation =
  a_baselineDuration :: real
  a_datesDuration :: real
  a_jobsDuration :: real
  a_datesDelay :: real
  a_jobsStartTime :: real
  a_durationPerJob :: real
  a_jobPartAnimDuration :: real

definition animation_plan :: "real \<Rightarrow> nat \<Rightarrow> animation" where
  "animation_plan animationTotalDuration n =
     (let baselineDuration = animationTotalDuration * 0.15;
          datesDuration = animationTotalDuration * 0.1;
          jobsDuration = animationTotalDuration * 0.75;
          datesDelay = baselineDuration;
          jobsStartTime = datesDelay + datesDuration;
          durationPerJob = jobsDuration / real (max 1 n);
          jobPartAnimDuration = durationPerJob * 0.5
      in \<lparr>a_baselineDuration = baselineDuration, a_datesDuration = datesDuration,
          a_jobsDuration = jobsDuration, a_datesDelay = datesDelay,
          a_jobsStartTime = jobsStartTime, a_durationPerJob = durationPerJob,
          a_jobPartAnimDuration = jobPartAnimDuration\<rparr>)"

definition item_delay :: "animation \<Rightarrow> nat \<Rightarrow> real" where
  "item_delay an i = a_jobsStartTime an + real i * a_durationPerJob an"

definition closingConnectorDelay :: "animation \<Rightarrow> nat \<Rightarrow> real" where
  "closingConnectorDelay an i = item_delay an i + a_jobPartAnimDuration an"

subsection \<open>Canvas and lanes\<close>

text \<open>
  \<^verbatim>\<open>
  const laneCount = Math.max(1, d3.max(items, (d) => d.lane) + 1);
  const contentHeight = (Math.ceil(laneCount / 2) * heightPerLane) * 2;
  const height = margin.top + margin.bottom + contentHeight;
  const baselineY = margin.top + contentHeight / 2;
  \<close>
  \<open>laneCount\<close> is applied to the lanes of a non-empty item list.
\<close>

definition laneCount :: "nat list \<Rightarrow> nat" where
  "laneCount lanes = max 1 (foldr max lanes 0 + 1)"

definition contentHeight :: "options \<Rightarrow> nat \<Rightarrow> real" where
  "contentHeight opts lc = (real ((lc + 1) div 2) * o_heightPerLane opts) * 2"

definition svg_height :: "options \<Rightarrow> nat \<Rightarrow> real" where
  "svg_height opts lc = m_top (o_margin opts) + m_bottom (o_margin opts) + contentHeight opts lc"

definition baselineY :: "options \<Rightarrow> nat \<Rightarrow> real" where
  "baselineY opts lc = m_top (o_margin opts) + contentHeight opts lc / 2"

text \<open>
  \<^verbatim>\<open>
  function laneToY(lane) {
    if (lane === 0) return baselineY;
    const pairIndex = Math.ceil(lane / 2);
    const isUp = lane % 2 === 1;
    const offset = pairIndex * heightPerLane;
    return isUp ? baselineY - offset : baselineY + offset;
  }
  \<close>
\<close>

definition laneToY :: "options \<Rightarrow> real \<Rightarrow> nat \<Rightarrow> real" where
  "laneToY opts baseY lane =
     (if lane = 0 then baseY
      else
        let pairIndex = (lane + 1) div 2;
            isUp = (lane mod 2 = 1);
            offset = real pairIndex * o_heightPerLane opts
        in if isUp then baseY - offset else baseY + offset)"

subsection \<open>Date labels\<close>

definition nodeRadius :: real where
  "nodeRadius = 9"

definition lineHeight :: real where
  "lineHeight = 16"

definition labelProximityThreshold :: real where
  "labelProximityThreshold = 20"

text \<open>
  \<^verbatim>\<open>[...drawnLabelXCoords].some((x) => Math.abs(x - nx) < labelProximityThreshold)\<close>.
  The set of drawn coordinates is kept as the list of its elements in insertion order;
  a coordinate already in it is never added again, being too close to itself.
\<close>

definition too_close :: "real list \<Rightarrow> real \<Rightarrow> bool" where
  "too_close drawnLabelXCoords nx =
     list_ex (\<lambda>x. \<bar>x - nx\<bar> < labelProximityThreshold) drawnLabelXCoords"

text \<open>
  The labels of one item: the x coordinate of each label that is rendered
  (\<^term>\<open>None\<close> for a label that is not), and their common y coordinate.
\<close>

record date_labels =
  start_label :: "real option"
  end_label :: "real option"
  label_y :: real

text \<open>
  \<^verbatim>\<open>
  for (const it of items) {
    const ny = laneToY(it.lane);
    const onBaseline = ny === baselineY;
    const labelY = onBaseline ? ny - nodeRadius - 4 : ny + nodeRadius + 4;
    if (includeStartDate) {
      const nx = xScale(it.start);
      const isTooCloseToOtherLabel = [...drawnLabelXCoords].some(...);
      if (!isTooCloseToOtherLabel) { ...append the label at nx...; drawnLabelXCoords.add(nx); }
    }
    if (includeEndDate && it.end) {
      const ex = xScale(it.end);
      const isEndTooClose = [...drawnLabelXCoords].some(...);
      if (!isEndTooClose) { ...append the label at ex...; drawnLabelXCoords.add(ex); }
    }
  }
  \<close>
  The scale is a parameter \<open>xScale\<close>. The result pairs the labels of each item with
  the set of drawn coordinates after it.
\<close>

definition label_step ::
  "options \<Rightarrow> (int \<Rightarrow> real) \<Rightarrow> real \<Rightarrow> real list \<Rightarrow> item \<times> nat \<Rightarrow> date_labels \<times> real list" where
  "label_step opts xScale baseY drawn itl =
     (let it = fst itl;
          ny = laneToY opts baseY (snd itl);
          onBaseline = (ny = baseY);
          labelY = (if onBaseline then ny - nodeRadius - 4 else ny + nodeRadius + 4);
          nx = xScale (it_start it);
          startDrawn = (o_includeStartDate opts \<and> \<not> too_close drawn nx);
          drawn1 = (if startDrawn then drawn @ [nx] else drawn);
          ex = map_option xScale (it_end it);
          endDrawn = (o_includeEndDate opts \<and> ex \<noteq> None \<and> \<not> too_close drawn1 (the ex));
          drawn2 = (if endDrawn then drawn1 @ [the ex] else drawn1)
      in (\<lparr>start_label = (if startDrawn then Some nx else None),
           end_label = (if endDrawn then ex else None),
           label_y = labelY\<rparr>, drawn2))"

fun place_labels ::
  "options \<Rightarrow> (int \<Rightarrow> real) \<Rightarrow> real \<Rightarrow> real list \<Rightarrow> (item \<times> nat) list \<Rightarrow> date_labels list" where
  "place_labels opts xScale baseY drawn [] = []"
| "place_labels opts xScale baseY drawn (itl # rest) =
     (case label_step opts xScale baseY drawn itl of
        (labels, drawn') \<Rightarrow> labels # place_labels opts xScale baseY drawn' rest)"

text \<open>The rendered coordinates of a list of labels, in the order they were drawn.\<close>

definition rendered :: "date_labels list \<Rightarrow> real list" where
  "rendered ls =
     concat (map (\<lambda>l. (case start_label l of None \<Rightarrow> [] | Some x \<Rightarrow> [x]) @
                      (case end_label l of None \<Rightarrow> [] | Some x \<Rightarrow> [x])) ls)"

subsection \<open>The geometry of one item\<close>

text \<open>
  \<^verbatim>\<open>
  for (const [i, it] of items.entries()) {
    const x1 = xScale(it.start);
    const x2 = xScale(it.end || now);
    const y = laneToY(it.lane);
    const w = Math.max(6, x2 - x1);
    const delay = jobsStartTime + i * durationPerJob;
    ... rect at x = Math.min(x1, x2), y = y - 10, width = w, height = 18 ...
    if (it.end || y !== baselineY) { const closingConnectorDelay = delay + jobPartAnimDuration; ... }
    ... circle at (x1, y) ...
    const hasTitle = Boolean(it.title);
    let topY;
    if (y < baselineY) { const blockHeight = (hasTitle ? 2 : 1) * lineHeight;
                         topY = y - nodeRadius - 8 - blockHeight; }
    else { topY = y + nodeRadius + 8; }
  }
  \<close>
\<close>

record job_geometry =
  j_lane :: nat
  j_x1 :: real
  j_x2 :: real
  j_y :: real
  j_w :: real
  j_bar_x :: real
  j_delay :: real
  j_closing :: "real option"
  j_topY :: real

definition job_geometry ::
  "options \<Rightarrow> (int \<Rightarrow> real) \<Rightarrow> int \<Rightarrow> real \<Rightarrow> animation \<Rightarrow> nat \<Rightarrow> item \<times> nat \<Rightarrow> job_geometry" where
  "job_geometry opts xScale now baseY an i itl =
     (let it = fst itl;
          x1 = xScale (it_start it);
          x2 = xScale (effective_end now it);
          y = laneToY opts baseY (snd itl);
          w = max 6 (x2 - x1);
          hasTitle = (it_title it \<noteq> []);
          topY = (if y < baseY
                  then y - nodeRadius - 8 - (if hasTitle then 2 else 1) * lineHeight
                  else y + nodeRadius + 8)
      in \<lparr>j_lane = snd itl, j_x1 = x1, j_x2 = x2, j_y = y, j_w = w, j_bar_x = min x1 x2,
          j_delay = item_delay an i,
          j_closing = (if it_end it \<noteq> None \<or> y \<noteq> baseY
                       then Some (closingConnectorDelay an i) else None),
          j_topY = topY\<rparr>)"

subsection \<open>The whole layout\<close>

record layout =
  l_height :: "real option"
  l_baselineY :: "real option"
  l_scale :: "time_scale option"
  l_animation :: animation
  l_jobs :: "job_geometry list"
  l_labels :: "date_labels list"

text \<open>
  The numbers the generator writes into the SVG. With no items the scale has no
  domain, the lane count and with it the canvas height and the baseline are
  \<^verbatim>\<open>NaN\<close> (\<^term>\<open>None\<close>), and the loops over the items draw nothing.
\<close>

definition generate_layout :: "options \<Rightarrow> int \<Rightarrow> item list \<Rightarrow> layout" where
  "generate_layout opts now items =
     (let laid = allocate_lanes now items;
          an = animation_plan (o_animationTotalDuration opts) (length laid)
      in case x_scale opts now items of
           None \<Rightarrow>
             \<lparr>l_height = None, l_baselineY = None, l_scale = None, l_animation = an,
              l_jobs = [], l_labels = []\<rparr>
         | Some sc \<Rightarrow>
             let lc = laneCount (map snd laid);
                 baseY = baselineY opts lc
             in \<lparr>l_height = Some (svg_height opts lc), l_baselineY = Some baseY,
                 l_scale = Some sc, l_animation = an,
                 l_jobs = map (\<lambda>(i, itl). job_geometry opts (project sc) now baseY an i itl)
                            (zip [0..<length laid] laid),
                 l_labels =
                   (if o_includeStartDate opts \<or> o_includeEndDate opts
                    then place_labels opts (project sc) baseY [] laid
                    else [])\<rparr>)"

text \<open>
  The generator from the parsed CSV rows on: the rows become items (the only step that
  throws), then the layout is computed. \<open>now\<close>, read from the clock by
  \<^verbatim>\<open>new Date()\<close>, is a parameter. The result is \<^term>\<open>None\<close> when an item
  carries an Invalid Date as its end: the generator still returns its SVG, with
  \<^verbatim>\<open>NaN\<close> coordinates that this model does not compute.
\<close>

definition generateExperienceTimeline ::
  "options \<Rightarrow> int \<Rightarrow> csv_row list \<Rightarrow> gen_error + layout option" where
  "generateExperienceTimeline opts now rows =
     (case make_items 0 rows of
        Inl e \<Rightarrow> Inl e
      | Inr ps \<Rightarrow> Inr (map_option (generate_layout opts now) (layout_items ps)))"

text \<open>Two label coordinates are far apart when their distance reaches the threshold.\<close>

definition far :: "real \<Rightarrow> real \<Rightarrow> bool" where
  "far x y = (labelProximityThreshold \<le> \<bar>x - y\<bar>)"

subsection \<open>Sample requests\<close>

definition sample_header :: string where
  "sample_header = ''company,start,end,title,logo,color''"

definition quoted_comma_csv :: string where
  "quoted_comma_csv =
     sample_header @ [CHR 0x0A] @ [CHR 0x22] @ ''Acme, Inc'' @ [CHR 0x22] @ '',2020-01,2021-06,Engineer,,''"

definition plain_csv :: string where
  "plain_csv = sample_header @ [CHR 0x0A] @ ''Acme,2020-01,2021-06,Engineer,,''"

text \<open>A value in CSV quotes.\<close>

definition quoted :: "string \<Rightarrow> string" where
  "quoted v = [CHR 0x22] @ v @ [CHR 0x22]"

text \<open>
  A row of three CSV fields, the quoted company \<open>A,2020,2021,T\<close>, the start 2020 and
  the end 2021: five commas in all.
\<close>

definition comma_company_csv :: string where
  "comma_company_csv = sample_header @ [CHR 0x0A] @ quoted ''A,2020,2021,T'' @ '',2020,2021''"


text \<open>The scenario of three intervals: A and B overlap, C starts after A has ended.\<close>

definition scenario_rows :: "csv_row list" where
  "scenario_rows =
     [\<lparr>r_company = ''A'', r_start = ''2020-01'', r_end = ''2021-06'', r_title = [], r_logo = [], r_color = []\<rparr>,
      \<lparr>r_company = ''B'', r_start = ''2020-06'', r_end = ''2021-01'', r_title = [], r_logo = [], r_color = []\<rparr>,
      \<lparr>r_company = ''C'', r_start = ''2021-07'', r_end = [], r_title = [], r_logo = [], r_color = []\<rparr>]"

definition scenario_parsed :: "parsed_item list" where
  "scenario_parsed = (case make_items 0 scenario_rows of Inr ps \<Rightarrow> ps | Inl e \<Rightarrow> [])"

definition scenario_items :: "item list" where
  "scenario_items = (case layout_items scenario_parsed of Some its \<Rightarrow> its | None \<Rightarrow> [])"

text \<open>An interval with no metadata.\<close>

definition interval :: "nat \<Rightarrow> int \<Rightarrow> int option \<Rightarrow> item" where
  "interval n s e =
     \<lparr>it_id = n, it_company = [], it_title = [], it_logo = [], it_colorRaw = [],
      it_start = s, it_end = e, it_startRaw = [], it_endRaw = []\<rparr>"

section \<open>Activity chart helpers: definitions\<close>

subsection \<open>\<^verbatim>\<open>niceYTicks\<close>\<close>

text \<open>
  \<^verbatim>\<open>
  function niceYTicks(maxCount, targetTicks = 5) {
    const step = Math.ceil(maxCount / (targetTicks - 1)) || 1;
    const ticks = [];
    for (let v = 0; v <= maxCount; v += step) ticks.push(v);
    if (ticks[ticks.length - 1] !== maxCount) ticks.push(maxCount);
    return ticks;
  }
  \<close>
  The caller passes contribution counts, so \<open>maxCount\<close> and \<open>targetTicks\<close> are
  integers. The \<^verbatim>\<open>for\<close> loop does not exit when \<open>step\<close> is not positive and
  \<open>0 \<le> maxCount\<close>; it is a partial function, and \<^term>\<open>None\<close> stands for a call
  that does not return.
\<close>

partial_function (option) ticks_loop :: "int \<Rightarrow> int \<Rightarrow> int \<Rightarrow> int list \<Rightarrow> int list option" where
  "ticks_loop maxCount step v ticks =
     (if v \<le> maxCount then ticks_loop maxCount step (v + step) (ticks @ [v]) else Some ticks)"

text \<open>\<^verbatim>\<open>Math.ceil(maxCount / (targetTicks - 1)) || 1\<close>: a zero quotient is falsy.\<close>

definition tick_step :: "int \<Rightarrow> int \<Rightarrow> int" where
  "tick_step maxCount targetTicks =
     (let c = \<lceil>real_of_int maxCount / real_of_int (targetTicks - 1)\<rceil>
      in if c = 0 then 1 else c)"

text \<open>
  \<^verbatim>\<open>if (ticks[ticks.length - 1] !== maxCount) ticks.push(maxCount)\<close>; on the empty
  array the read is \<^verbatim>\<open>undefined\<close>, which differs from every number.
\<close>

definition push_max :: "int \<Rightarrow> int list \<Rightarrow> int list" where
  "push_max maxCount ticks =
     (if ticks \<noteq> [] \<and> last ticks = maxCount then ticks else ticks @ [maxCount])"

text \<open>
  With \<open>targetTicks = 1\<close> the quotient is a division by zero: \<^verbatim>\<open>Infinity\<close> for a
  positive \<open>maxCount\<close> (the loop pushes 0 and stops), \<^verbatim>\<open>NaN\<close> for zero (falsy, so
  the step is 1) and \<^verbatim>\<open>-Infinity\<close> for a negative one (the loop body never runs).
  These three results are written out.
\<close>

definition niceYTicks :: "int \<Rightarrow> int \<Rightarrow> int list option" where
  "niceYTicks maxCount targetTicks =
     (if targetTicks = 1 then
        (if 0 < maxCount then Some [0, maxCount]
         else if maxCount = 0 then Some [0]
         else Some [maxCount])
      else map_option (push_max maxCount)
             (ticks_loop maxCount (tick_step maxCount targetTicks) 0 []))"

text \<open>The list the loop builds in \<open>n\<close> rounds from \<open>v\<close>.\<close>

fun stepped :: "int \<Rightarrow> int \<Rightarrow> nat \<Rightarrow> int list" where
  "stepped v step 0 = []"
| "stepped v step (Suc n) = v # stepped (v + step) step n"

subsection \<open>\<^verbatim>\<open>computePathLength\<close>\<close>

text \<open>
  \<^verbatim>\<open>
  function computePathLength(points) {
    let L = 0;
    for (let i = 1; i < points.length; i++) {
      const dx = points[i].x - points[i - 1].x;
      const dy = points[i].y - points[i - 1].y;
      L += Math.hypot(dx, dy);
    }
    return Math.max(1, L);
  }
  \<close>
\<close>

record point =
  pt_x :: real
  pt_y :: real

definition hypot :: "real \<Rightarrow> real \<Rightarrow> real" where
  "hypot dx dy = sqrt (dx\<^sup>2 + dy\<^sup>2)"

function path_loop :: "point list \<Rightarrow> nat \<Rightarrow> real \<Rightarrow> real" where
  "path_loop points i L =
     (if i < length points
      then path_loop points (i + 1)
             (L + hypot (pt_x (points ! i) - pt_x (points ! (i - 1)))
                        (pt_y (points ! i) - pt_y (points ! (i - 1))))
      else L)"
  by pat_completeness auto
termination
  by (relation "measure (\<lambda>(points, i, L). length points - i)") auto

declare path_loop.simps [simp del]

definition computePathLength :: "point list \<Rightarrow> real" where
  "computePathLength points = max 1 (path_loop points 1 0)"

text \<open>
  The specification's reading: the Euclidean length of each segment between consecutive
  points, summed.
\<close>

definition segment_length :: "point \<Rightarrow> point \<Rightarrow> real" where
  "segment_length p q = sqrt ((pt_x q - pt_x p)\<^sup>2 + (pt_y q - pt_y p)\<^sup>2)"

definition segment_sum :: "point list \<Rightarrow> real" where
  "segment_sum points =
     (\<Sum>i = 1..<length points. segment_length (points ! (i - 1)) (points ! i))"

section \<open>Dates: proofs\<close>

lemma list_len_Suc: "length s = Suc n \<Longrightarrow> \<exists>a r. s = a # r \<and> length r = n"
  by (cases s) auto

lemma shape_Y_iff: "shape_Y s \<longleftrightarrow> (\<exists>a b c d. s = [a, b, c, d] \<and> is_digit a \<and> is_digit b \<and> is_digit c \<and> is_digit d)"
  unfolding shape_Y_def
  by (auto simp: eval_nat_numeral dest!: list_len_Suc)

lemma shape_YM_iff: "shape_YM s \<longleftrightarrow> (\<exists>a b c d e f. s = [a, b, c, d, CHR ''-'', e, f] \<and>
    is_digit a \<and> is_digit b \<and> is_digit c \<and> is_digit d \<and> is_digit e \<and> is_digit f)"
  unfolding shape_YM_def
  by (auto simp: eval_nat_numeral dest!: list_len_Suc)

lemma shape_YMD_iff: "shape_YMD s \<longleftrightarrow> (\<exists>a b c d e f g h. s = [a, b, c, d, CHR ''-'', e, f, CHR ''-'', g, h] \<and>
    is_digit a \<and> is_digit b \<and> is_digit c \<and> is_digit d \<and> is_digit e \<and> is_digit f \<and> is_digit g \<and> is_digit h)"
  unfolding shape_YMD_def
  by (auto simp: eval_nat_numeral dest!: list_len_Suc)



lemma take_digits_Some:
  "take_digits n s = Some r \<longleftrightarrow> n \<le> length s \<and> list_all is_digit (take n s) \<and> r = drop n s"
  by (auto simp: take_digits_def)

lemma dash_digits_Some:
  "dash_digits s = Some r \<longleftrightarrow>
     3 \<le> length s \<and> s ! 0 = CHR ''-'' \<and> list_all is_digit (take 2 (drop 1 s)) \<and> r = drop 3 s"
  by (cases s) (auto simp: dash_digits_def take_digits_Some)

lemma shapes_of_regex:
  assumes "dateRegex_test s"
  shows "shape_Y s \<or> shape_YM s \<or> shape_YMD s"
proof -
  from assms obtain r1 where r1: "take_digits 4 s = Some r1"
    by (auto simp: dateRegex_test_def split: option.splits)
  then have s4: "4 \<le> length s" "list_all is_digit (take 4 s)" "r1 = drop 4 s"
    by (simp_all add: take_digits_Some)
  show ?thesis
  proof (cases "r1 = []")
    case True
    then have "length s = 4" using s4 by simp
    then show ?thesis using s4 by (simp add: shape_Y_def)
  next
    case False
    with assms r1 obtain r2 where r2: "dash_digits r1 = Some r2"
      by (auto simp: dateRegex_test_def split: option.splits)
    then have s7: "7 \<le> length s" "s ! 4 = CHR ''-''" "list_all is_digit (take 2 (drop 5 s))"
      "r2 = drop 7 s"
      using s4 by (auto simp: dash_digits_Some)
    show ?thesis
    proof (cases "r2 = []")
      case True
      then have "length s = 7" using s7 by simp
      then show ?thesis using s4 s7 by (simp add: shape_YM_def)
    next
      case r2ne: False
      with assms r1 r2 False obtain r3 where r3: "dash_digits r2 = Some r3" and e: "r3 = []"
        by (auto simp: dateRegex_test_def split: option.splits)
      then have s10: "10 \<le> length s" "s ! 7 = CHR ''-''" "list_all is_digit (take 2 (drop 8 s))"
        "r3 = drop 10 s"
        using s7 by (auto simp: dash_digits_Some)
      with e have "length s = 10" by simp
      then show ?thesis using s4 s7 s10 by (simp add: shape_YMD_def)
    qed
  qed
qed

lemma digit_not_special:
  assumes "is_digit c"
  shows "c \<noteq> CHR ''-''" "c \<noteq> CHR ''+''" "\<not> is_space c"
  using assms by (auto simp: is_digit_def is_space_def)

lemma digit_val_range: "is_digit c \<Longrightarrow> 0 \<le> digit_val c \<and> digit_val c \<le> 9"
  by (auto simp: is_digit_def digit_val_def)

lemma parseInt_digits:
  assumes "ds \<noteq> []" "list_all is_digit ds"
  shows "parseInt ds = Some (digits_value ds)"
proof -
  from assms obtain c r where ds: "ds = c # r" by (cases ds) auto
  with assms(2) have c: "is_digit c" by simp
  have d: "dropWhile is_space ds = ds" using ds digit_not_special(3)[OF c] by simp
  have t: "takeWhile is_digit ds = ds" using assms(2) by (simp add: list_all_iff)
  show ?thesis
    unfolding parseInt_def d Let_def
    using ds digit_not_special(1,2)[OF c] t assms(1) by (simp add: digits_value_def)
qed

lemma split_on_no_sep: "sep \<notin> set s \<Longrightarrow> split_on sep s = [s]"
  by (induction s) auto

lemma split_on_append_sep:
  "sep \<notin> set a \<Longrightarrow> split_on sep (a @ sep # b) = a # split_on sep b"
  by (induction a) (auto split: list.splits)


lemma digits_value_snoc: "digits_value (ds @ [c]) = 10 * digits_value ds + digit_val c"
  by (simp add: digits_value_def)

lemma digits_value_bounds:
  "list_all is_digit ds \<Longrightarrow> 0 \<le> digits_value ds \<and> digits_value ds < 10 ^ length ds"
proof (induction ds rule: rev_induct)
  case Nil
  show ?case by (simp add: digits_value_def)
next
  case (snoc c ds)
  then have ih: "0 \<le> digits_value ds" "digits_value ds < 10 ^ length ds" and c: "is_digit c"
    by simp_all
  from digit_val_range[OF c] ih show ?case
    unfolding digits_value_snoc by simp
qed

lemma month_start_bounds:
  assumes "0 \<le> mn" "mn < 12"
  shows "0 \<le> month_start mn leap \<and> month_start mn leap \<le> 335"
proof -
  from assms have "mn = 0 \<or> mn = 1 \<or> mn = 2 \<or> mn = 3 \<or> mn = 4 \<or> mn = 5 \<or> mn = 6 \<or>
      mn = 7 \<or> mn = 8 \<or> mn = 9 \<or> mn = 10 \<or> mn = 11" by presburger
  then show ?thesis
    by (elim disjE) (simp_all add: month_start_def)
qed

lemma int_div_bracket:
  fixes a b :: int
  assumes "0 < b"
  shows "b * (a div b) \<le> a \<and> a < b * (a div b) + b"
proof -
  have "a = b * (a div b) + a mod b" by simp
  moreover have "0 \<le> a mod b" "a mod b < b" using assms by simp_all
  ultimately show ?thesis by linarith
qed

lemma DayFromYear_bounds:
  assumes "0 \<le> y" "y \<le> 20000"
  shows "- 1000000 \<le> DayFromYear y \<and> DayFromYear y \<le> 10000000"
proof -
  define q4 where "q4 = (y - 1969) div 4"
  define q100 where "q100 = (y - 1901) div 100"
  define q400 where "q400 = (y - 1601) div 400"
  have "4 * q4 \<le> y - 1969" "y - 1969 < 4 * q4 + 4"
    unfolding q4_def using int_div_bracket[of 4 "y - 1969"] by simp_all
  then have b4: "- 500 \<le> q4" "q4 \<le> 5000" using assms by linarith+
  have "100 * q100 \<le> y - 1901" "y - 1901 < 100 * q100 + 100"
    unfolding q100_def using int_div_bracket[of 100 "y - 1901"] by simp_all
  then have b100: "- 20 \<le> q100" "q100 \<le> 200" using assms by linarith+
  have "400 * q400 \<le> y - 1601" "y - 1601 < 400 * q400 + 400"
    unfolding q400_def using int_div_bracket[of 400 "y - 1601"] by simp_all
  then have b400: "- 5 \<le> q400" "q400 \<le> 50" using assms by linarith+
  have e: "DayFromYear y = 365 * y - 719050 + q4 - q100 + q400"
    by (simp add: DayFromYear_def q4_def q100_def q400_def)
  have "- 1000000 \<le> DayFromYear y" unfolding e using b4 b100 b400 assms by linarith
  moreover have "DayFromYear y \<le> 10000000" unfolding e using b4 b100 b400 assms by linarith
  ultimately show ?thesis by simp
qed

lemma MakeDay_bounds:
  assumes "0 \<le> y" "y \<le> 9999" "- 1 \<le> m" "m \<le> 98" "0 \<le> d" "d \<le> 99"
  shows "\<bar>MakeDay (MakeFullYear y) m d\<bar> \<le> 100000000"
proof -
  have fy: "100 \<le> MakeFullYear y" "MakeFullYear y \<le> 9999"
    using assms(1,2) by (auto simp: MakeFullYear_def)
  have q: "- 1 \<le> m div 12" "m div 12 \<le> 8" using assms(3,4) by linarith+
  have r: "0 \<le> m mod 12" "m mod 12 < 12" by simp_all
  have yb: "0 \<le> MakeFullYear y + m div 12" "MakeFullYear y + m div 12 \<le> 20000"
    using fy q by linarith+
  from DayFromYear_bounds[OF yb] month_start_bounds[OF r, of "InLeapYear (MakeFullYear y + m div 12)"] assms(5,6)
  show ?thesis unfolding MakeDay_def Let_def by linarith
qed

lemma Date_UTC_in_range:
  assumes "0 \<le> y" "y \<le> 9999" "- 1 \<le> m" "m \<le> 98" "0 \<le> d" "d \<le> 99"
  shows "Date_UTC (Some y) (Some m) (Some d) = Instant (MakeDay (MakeFullYear y) m d * msPerDay)"
proof -
  have "\<bar>MakeDay (MakeFullYear y) m d * msPerDay\<bar> = \<bar>MakeDay (MakeFullYear y) m d\<bar> * 86400000"
    by (simp add: msPerDay_def abs_mult)
  also have "\<dots> \<le> 100000000 * 86400000"
    using MakeDay_bounds[OF assms] by simp
  finally show ?thesis by (simp add: Date_UTC_def TimeClip_def)
qed

lemma parseYMD_of_shape:
  assumes "dateRegex_test s"
  shows "parseYMD s = Some (Date_UTC (Some (year_of s)) (Some (month_of s - 1)) (Some (day_of s)))"
proof -
  from shapes_of_regex[OF assms] consider "shape_Y s" | "shape_YM s" | "shape_YMD s" by blast
  then show ?thesis
  proof cases
    case 1
    then obtain a b c d where s: "s = [a, b, c, d]" and
      dg: "is_digit a" "is_digit b" "is_digit c" "is_digit d"
      unfolding shape_Y_iff by blast
    have sp: "split_on CHR ''-'' s = [s]"
      using dg by (intro split_on_no_sep) (auto simp: s dest: digit_not_special(1))
    have p: "parseInt s = Some (digits_value s)"
      using dg by (intro parseInt_digits) (simp_all add: s)
    show ?thesis
      unfolding parseYMD_def sp Let_def using p
      by (simp add: part_def s year_of_def month_of_def day_of_def)
  next
    case 2
    then obtain a b c d e f where s: "s = [a, b, c, d] @ CHR ''-'' # [e, f]" and
      dg: "is_digit a" "is_digit b" "is_digit c" "is_digit d" "is_digit e" "is_digit f"
      unfolding shape_YM_iff by auto
    have sp: "split_on CHR ''-'' s = [[a, b, c, d], [e, f]]"
      unfolding s using dg
      by (subst split_on_append_sep, (auto dest: digit_not_special(1))[1])
         (subst split_on_no_sep, auto dest: digit_not_special(1))
    have p: "parseInt [a, b, c, d] = Some (digits_value [a, b, c, d])"
      "parseInt [e, f] = Some (digits_value [e, f])"
      using dg by (auto intro!: parseInt_digits)
    show ?thesis
      unfolding parseYMD_def sp Let_def using p
      by (simp add: part_def s year_of_def month_of_def day_of_def)
  next
    case 3
    then obtain a b c d e f g h where
      s: "s = [a, b, c, d] @ CHR ''-'' # [e, f] @ CHR ''-'' # [g, h]" and
      dg: "is_digit a" "is_digit b" "is_digit c" "is_digit d" "is_digit e" "is_digit f"
          "is_digit g" "is_digit h"
      unfolding shape_YMD_iff by auto
    have sp: "split_on CHR ''-'' s = [[a, b, c, d], [e, f], [g, h]]"
      unfolding s using dg
      by (subst split_on_append_sep, (auto dest: digit_not_special(1))[1])
         (subst split_on_append_sep, (auto dest: digit_not_special(1))[1],
          subst split_on_no_sep, auto dest: digit_not_special(1))
    have p: "parseInt [a, b, c, d] = Some (digits_value [a, b, c, d])"
      "parseInt [e, f] = Some (digits_value [e, f])"
      "parseInt [g, h] = Some (digits_value [g, h])"
      using dg by (auto intro!: parseInt_digits)
    show ?thesis
      unfolding parseYMD_def sp Let_def using p
      by (simp add: part_def s year_of_def month_of_def day_of_def)
  qed
qed

subsection \<open>\<^verbatim>\<open>Date.UTC\<close> and the calendar counted day by day\<close>











section \<open>Request validation: proofs\<close>

lemma split_on_nonempty: "split_on sep s \<noteq> []"
  by (induction s) (auto split: list.splits)

lemma length_split_on: "length (split_on sep s) = Suc (count_list s sep)"
  by (induction s) (auto split: list.splits simp: split_on_nonempty)

lemma validate_rows_ok_fields:
  "validate_rows i rows = Inr () \<Longrightarrow> row \<in> set rows \<Longrightarrow>
     length (split_on CHR '','' row) = length allFields"
proof (induction rows arbitrary: i)
  case Nil
  then show ?case by simp
next
  case (Cons r rows)
  from Cons.prems(1) have len: "length (split_on CHR '','' r) = length allFields"
    by (simp add: Let_def split: if_splits)
  from Cons.prems(1) have rest: "validate_rows (i + 1) rows = Inr ()"
    by (simp add: Let_def split: if_splits)
  from Cons.prems(2) show ?case
    using len Cons.IH[OF rest] by auto
qed

lemma validate_ok_rows:
  "validateExperienceCSV csvString = Inr () \<Longrightarrow> validate_rows 0 (data_rows csvString) = Inr ()"
  by (simp add: validateExperienceCSV_def Let_def split: if_splits)

lemma length_allFields: "length allFields = 6"
  by (simp add: allFields_def)

text \<open>
  Claim C10, as amended. A request passes validation only if every non-empty data row
  splits on its raw commas (quotes are not interpreted) into exactly 6 pieces, that
  is, has exactly 5 commas. If some data row splits into another number of pieces,
  the validator throws and the handler answers with the validation error, whatever
  the generator and the cache are: neither is used and the cache is left as it was.
  A row whose company is the quoted value "Acme, Inc", with its other five fields,
  splits into 7 pieces and is rejected.
\<close>

theorem row_shape_restriction:
  "(validateExperienceCSV csvString = Inr () \<longrightarrow>
      (\<forall>row \<in> set (data_rows csvString).
         length (split_on CHR '','' row) = 6 \<and> count_list row CHR '','' = 5)) \<and>
   ((\<exists>row \<in> set (data_rows csvString). length (split_on CHR '','' row) \<noteq> 6) \<longrightarrow>
      (\<exists>e. validateExperienceCSV csvString = Inl e \<and>
           handler generate cache csvString = (ValidationErrorSVG e, cache))) \<and>
   validateExperienceCSV quoted_comma_csv = Inl (BadFieldCount 2 6 7) \<and>
   handler generate cache quoted_comma_csv = (ValidationErrorSVG (BadFieldCount 2 6 7), cache)"
proof -
  have ok: "length (split_on CHR '','' row) = 6 \<and> count_list row CHR '','' = 5"
    if "validateExperienceCSV csvString = Inr ()" "row \<in> set (data_rows csvString)" for row
  proof -
    have "length (split_on CHR '','' row) = 6"
      using validate_rows_ok_fields[OF validate_ok_rows[OF that(1)] that(2)]
      by (simp add: length_allFields)
    then show ?thesis by (simp add: length_split_on)
  qed
  have bad: "\<exists>e. validateExperienceCSV csvString = Inl e \<and>
                handler generate cache csvString = (ValidationErrorSVG e, cache)"
    if "\<exists>row \<in> set (data_rows csvString). length (split_on CHR '','' row) \<noteq> 6"
  proof (cases "validateExperienceCSV csvString")
    case (Inl e)
    then show ?thesis by (simp add: handler_def)
  next
    case (Inr u)
    then have "validateExperienceCSV csvString = Inr ()" by simp
    with ok that show ?thesis by blast
  qed
  have q: "validateExperienceCSV quoted_comma_csv = Inl (BadFieldCount 2 6 7)"
    by code_simp
  then have "handler generate cache quoted_comma_csv =
      (ValidationErrorSVG (BadFieldCount 2 6 7), cache)"
    by (simp add: handler_def)
  with ok bad q show ?thesis by blast
qed

theorem row_shape_restriction_witness:
  "validateExperienceCSV plain_csv = Inr () \<and>
   list_all (\<lambda>row. count_list row CHR '','' = 5) (data_rows plain_csv) \<and>
   (\<exists>row \<in> set (data_rows quoted_comma_csv). length (split_on CHR '','' row) \<noteq> 6) \<and>
   (\<exists>e. handler (\<lambda>csv. Inr csv :: unit + string) Map.empty quoted_comma_csv =
          (ValidationErrorSVG e, Map.empty))"
proof -
  have v: "validateExperienceCSV plain_csv = Inr ()" by code_simp
  have r: "\<exists>row \<in> set (data_rows quoted_comma_csv). length (split_on CHR '','' row) \<noteq> 6"
    by code_simp
  from v row_shape_restriction[of plain_csv]
  have a: "list_all (\<lambda>row. count_list row CHR '','' = 5) (data_rows plain_csv)"
    unfolding list_all_iff by blast
  from r row_shape_restriction[of quoted_comma_csv "\<lambda>csv. Inr csv :: unit + string" Map.empty]
  have b: "\<exists>e. handler (\<lambda>csv. Inr csv :: unit + string) Map.empty quoted_comma_csv =
      (ValidationErrorSVG e, Map.empty)" by blast
  from v a r b show ?thesis by blast
qed

text \<open>
  The claim as first stated fails: its conclusion that no field value may contain a
  comma. The row below holds the quoted company \<open>A,2020,2021,T\<close>, whose three commas
  and the two that follow make the five the validator counts; its second and third
  raw pieces are 2020 and 2021, so the request passes and reaches the generator,
  where the CSV parser reads the quoted value as the company.
\<close>

theorem row_shape_restriction_counterexample:
  "data_rows comma_company_csv = [quoted ''A,2020,2021,T'' @ '',2020,2021''] \<and>
   CHR '','' \<in> set ''A,2020,2021,T'' \<and>
   split_on CHR '','' (quoted ''A,2020,2021,T'' @ '',2020,2021'') =
     [CHR 0x22 # ''A'', ''2020'', ''2021'', ''T'' @ [CHR 0x22], ''2020'', ''2021''] \<and>
   validateExperienceCSV comma_company_csv = Inr () \<and>
   handler (\<lambda>csv. Inr csv :: unit + string) Map.empty comma_company_csv =
     (SvgBody comma_company_csv, [comma_company_csv \<mapsto> comma_company_csv])"
proof -
  have d: "data_rows comma_company_csv = [quoted ''A,2020,2021,T'' @ '',2020,2021'']"
    by code_simp
  have m: "CHR '','' \<in> set ''A,2020,2021,T''" by simp
  have s: "split_on CHR '','' (quoted ''A,2020,2021,T'' @ '',2020,2021'') =
     [CHR 0x22 # ''A'', ''2020'', ''2021'', ''T'' @ [CHR 0x22], ''2020'', ''2021'']"
    by code_simp
  have v: "validateExperienceCSV comma_company_csv = Inr ()" by code_simp
  then have h: "handler (\<lambda>csv. Inr csv :: unit + string) Map.empty comma_company_csv =
     (SvgBody comma_company_csv, [comma_company_csv \<mapsto> comma_company_csv])"
    by (simp add: handler_def)
  from d m s v h show ?thesis by simp
qed

section \<open>Date parsing\<close>



lemma parse_of_shape:
  assumes "dateRegex_test s"
  shows "parseYMD s = Some (Instant (utc_ms (year_of s) (month_of s) (day_of s)))"
proof -
  from shapes_of_regex[OF assms] consider "shape_Y s" | "shape_YM s" | "shape_YMD s" by blast
  then have b: "0 \<le> year_of s \<and> year_of s \<le> 9999 \<and> 0 \<le> month_of s \<and> month_of s \<le> 99 \<and>
       0 \<le> day_of s \<and> day_of s \<le> 99"
  proof cases
    case 1
    then have "list_all is_digit (take 4 s)" "length (take 4 s) = 4" by (simp_all add: shape_Y_def)
    from digits_value_bounds[OF this(1)] this(2) 1 show ?thesis
      by (simp add: year_of_def month_of_def day_of_def shape_Y_def)
  next
    case 2
    then have "list_all is_digit (take 4 s)" "length (take 4 s) = 4"
      "list_all is_digit (take 2 (drop 5 s))" "length (take 2 (drop 5 s)) = 2"
      by (simp_all add: shape_YM_def)
    from digits_value_bounds[OF this(1)] digits_value_bounds[OF this(3)] this(2,4) 2 show ?thesis
      by (simp add: year_of_def month_of_def day_of_def shape_YM_def)
  next
    case 3
    then have "list_all is_digit (take 4 s)" "length (take 4 s) = 4"
      "list_all is_digit (take 2 (drop 5 s))" "length (take 2 (drop 5 s)) = 2"
      "list_all is_digit (take 2 (drop 8 s))" "length (take 2 (drop 8 s)) = 2"
      by (simp_all add: shape_YMD_def)
    from digits_value_bounds[OF this(1)] digits_value_bounds[OF this(3)]
      digits_value_bounds[OF this(5)] this(2,4,6) 3 show ?thesis
      by (simp add: year_of_def month_of_def day_of_def shape_YMD_def)
  qed
  then have "Date_UTC (Some (year_of s)) (Some (month_of s - 1)) (Some (day_of s)) =
      Instant (utc_ms (year_of s) (month_of s) (day_of s))"
    unfolding utc_ms_def by (intro Date_UTC_in_range) simp_all
  then show ?thesis using parseYMD_of_shape[OF assms] by simp
qed

text \<open>
  When the strings the generator reads as start and end have one of the three shapes
  (the end may also be empty), the row becomes an item whose start and end parsed.
\<close>

lemma make_item_validated:
  assumes "trim (r_start r) \<noteq> []" "dateRegex_test (trim (r_start r))"
    and "trim (r_end r) = [] \<or> dateRegex_test (trim (r_end r))"
  shows "\<exists>p. make_item i r = Inr p \<and> p_id p = i \<and>
           p_start p = utc_ms (year_of (trim (r_start r))) (month_of (trim (r_start r)))
                           (day_of (trim (r_start r))) \<and>
           layout_item p \<noteq> None"
proof -
  have s: "parse_start i (trim (r_start r)) =
      Inr (utc_ms (year_of (trim (r_start r))) (month_of (trim (r_start r))) (day_of (trim (r_start r))))"
    using parse_of_shape[OF assms(2)] by (simp add: parse_start_def)
  have e: "parse_end (trim (r_end r)) \<noteq> Some InvalidDate"
  proof (cases "trim (r_end r) = []")
    case True
    then show ?thesis by (simp add: parse_end_def)
  next
    case False
    with assms(3) parse_of_shape[of "trim (r_end r)"] show ?thesis
      by (simp add: parse_end_def)
  qed
  show ?thesis
    using s e
    by (auto simp: make_item_def layout_item_def Let_def split: option.splits jsdate.splits)
qed




section \<open>Sorting and lane allocation: proofs\<close>

subsection \<open>The comparator and the sort\<close>

lemma compare_items_le: "compare_items now a b \<le> 0 \<longleftrightarrow> precedes now a b"
  by (auto simp: compare_items_def precedes_def)

lemma precedes_total: "precedes now a b \<or> precedes now b a"
  by (auto simp: precedes_def)

lemma precedes_trans: "precedes now a b \<Longrightarrow> precedes now b c \<Longrightarrow> precedes now a c"
  by (auto simp: precedes_def)

lemma precedes_start: "precedes now a b \<Longrightarrow> it_start a \<le> it_start b"
  by (auto simp: precedes_def)

lemma mset_insort_by: "mset (insort_by cmp x ys) = add_mset x (mset ys)"
  by (induction ys) simp_all

lemma mset_sort_by: "mset (sort_by cmp xs) = mset xs"
  unfolding sort_by_def by (induction xs) (simp_all add: mset_insort_by)

lemma set_insort_by: "set (insort_by cmp x ys) = insert x (set ys)"
  using mset_insort_by[of cmp x ys] by (metis set_mset_mset set_mset_add_mset_insert)

lemma sorted_insort_items:
  assumes "sorted_wrt (precedes now) ys"
  shows "sorted_wrt (precedes now) (insort_by (compare_items now) x ys)"
  using assms
proof (induction ys)
  case Nil
  show ?case by simp
next
  case (Cons y ys)
  show ?case
  proof (cases "compare_items now x y \<le> 0")
    case True
    then have xy: "precedes now x y" by (simp add: compare_items_le)
    have "precedes now x z" if "z \<in> set ys" for z
      using Cons.prems that xy precedes_trans by auto
    with xy Cons.prems True show ?thesis by auto
  next
    case False
    then have yx: "precedes now y x"
      using precedes_total[of now x y] by (simp add: compare_items_le)
    have "precedes now y z" if "z \<in> set (insort_by (compare_items now) x ys)" for z
      using that yx Cons.prems by (auto simp: set_insort_by)
    moreover have "sorted_wrt (precedes now) (insort_by (compare_items now) x ys)"
      using Cons by simp
    ultimately show ?thesis using False by simp
  qed
qed

lemma sorted_sort_items: "sorted_wrt (precedes now) (sort_by (compare_items now) xs)"
  unfolding sort_by_def by (induction xs) (simp_all add: sorted_insort_items)

text \<open>The sort is stable: items with equal keys keep the order of the input.\<close>

lemma filter_insort_by_other:
  "\<not> P x \<Longrightarrow> filter P (insort_by cmp x ys) = filter P ys"
  by (induction ys) auto

lemma filter_insort_by_same:
  assumes "P x" "\<And>y. y \<in> set ys \<Longrightarrow> P y \<Longrightarrow> cmp x y \<le> 0"
  shows "filter P (insort_by cmp x ys) = x # filter P ys"
  using assms by (induction ys) auto

lemma sort_by_stable:
  assumes "\<And>x y. key x = key y \<Longrightarrow> cmp x y \<le> 0"
  shows "filter (\<lambda>y. key y = k) (sort_by cmp xs) = filter (\<lambda>y. key y = k) xs"
proof (induction xs)
  case Nil
  show ?case by (simp add: sort_by_def)
next
  case (Cons x xs)
  have u: "sort_by cmp (x # xs) = insort_by cmp x (sort_by cmp xs)" by (simp add: sort_by_def)
  show ?case
  proof (cases "key x = k")
    case True
    have "filter (\<lambda>y. key y = k) (insort_by cmp x (sort_by cmp xs)) =
        x # filter (\<lambda>y. key y = k) (sort_by cmp xs)"
      using True assms by (intro filter_insort_by_same) simp_all
    with True Cons show ?thesis unfolding u by simp
  next
    case False
    then show ?thesis unfolding u using Cons by (simp add: filter_insort_by_other)
  qed
qed

lemma sort_items_stable:
  "filter (\<lambda>y. (it_start y, effective_end now y) = k) (sort_by (compare_items now) items) =
   filter (\<lambda>y. (it_start y, effective_end now y) = k) items"
  by (rule sort_by_stable) (auto simp: compare_items_def)

subsection \<open>One greedy step\<close>

lemma scan_lanes_Some:
  "scan_lanes lanes s k = Some li \<Longrightarrow>
     k \<le> li \<and> li < length lanes \<and> lanes ! li \<le> s \<and> (\<forall>j. k \<le> j \<and> j < li \<longrightarrow> s < lanes ! j)"
proof (induction lanes s k rule: scan_lanes.induct)
  case (1 lanes s k)
  show ?case
  proof (cases "k < length lanes \<and> \<not> lanes ! k \<le> s")
    case True
    then have "scan_lanes lanes s (k + 1) = Some li"
      using "1.prems" by (subst (asm) scan_lanes.simps) simp
    with "1.IH" True have
      ih: "k + 1 \<le> li \<and> li < length lanes \<and> lanes ! li \<le> s \<and>
           (\<forall>j. k + 1 \<le> j \<and> j < li \<longrightarrow> s < lanes ! j)"
      by simp
    have "s < lanes ! j" if "k \<le> j" "j < li" for j
    proof (cases "j = k")
      case True
      with \<open>k < length lanes \<and> \<not> lanes ! k \<le> s\<close> show ?thesis by simp
    next
      case False
      with that ih show ?thesis by simp
    qed
    with ih show ?thesis by simp
  next
    case False
    then show ?thesis
      using "1.prems" by (subst (asm) scan_lanes.simps) (auto split: if_splits)
  qed
qed

lemma scan_lanes_None:
  "scan_lanes lanes s k = None \<Longrightarrow> (\<forall>j. k \<le> j \<and> j < length lanes \<longrightarrow> s < lanes ! j)"
proof (induction lanes s k rule: scan_lanes.induct)
  case (1 lanes s k)
  show ?case
  proof (cases "k < length lanes")
    case True
    with "1.prems" have a: "\<not> lanes ! k \<le> s" and b: "scan_lanes lanes s (k + 1) = None"
      by (subst (asm) scan_lanes.simps, simp split: if_splits)+
    from "1.IH"[OF True a b] have ih: "\<forall>j. k + 1 \<le> j \<and> j < length lanes \<longrightarrow> s < lanes ! j" .
    have "s < lanes ! j" if "k \<le> j" "j < length lanes" for j
      using that a ih by (cases "j = k") auto
    then show ?thesis by simp
  next
    case False
    then show ?thesis by simp
  qed
qed

lemma assign_lane_cases:
  assumes "assign_lane lanes s e = (l, lanes')"
  shows "(l < length lanes \<and> lanes ! l \<le> s \<and> (\<forall>j<l. s < lanes ! j) \<and> lanes' = lanes[l := e]) \<or>
         (l = length lanes \<and> (\<forall>j<length lanes. s < lanes ! j) \<and> lanes' = lanes @ [e])"
proof (cases "scan_lanes lanes s 0")
  case None
  from scan_lanes_None[OF None] assms None show ?thesis
    by (simp add: assign_lane_def)
next
  case (Some li)
  from scan_lanes_Some[OF Some] assms Some show ?thesis
    by (auto simp: assign_lane_def)
qed


subsection \<open>The allocation loop\<close>

lemma length_allocate_loop: "length (allocate_loop now lanes its) = length its"
  by (induction its arbitrary: lanes) (auto split: prod.splits)

lemma map_fst_allocate_loop: "map fst (allocate_loop now lanes its) = its"
  by (induction its arbitrary: lanes) (auto split: prod.splits)

text \<open>
  An interval already in lane \<open>l\<close> with effective end \<open>e\<close>: either it is the lane's
  last interval, or it ended by \<open>s0\<close>, a lower bound of all starts to come. Every later
  interval that lands in lane \<open>l\<close> then starts at \<open>e\<close> or later.
\<close>

lemma later_in_lane:
  assumes "l < length lanes" "lanes ! l = e \<or> e \<le> s0"
    and "\<forall>it \<in> set its. s0 \<le> it_start it"
    and "sorted_wrt (\<lambda>a b. it_start a \<le> it_start b) its"
    and "j < length its" "snd (allocate_loop now lanes its ! j) = l"
  shows "e \<le> it_start (its ! j)"
  using assms
proof (induction its arbitrary: lanes s0 j)
  case Nil
  then show ?case by simp
next
  case (Cons x rest)
  obtain lx lanes' where al: "assign_lane lanes (it_start x) (effective_end now x) = (lx, lanes')"
    by (cases "assign_lane lanes (it_start x) (effective_end now x)")
  have s0x: "s0 \<le> it_start x" using Cons.prems(3) by simp
  have same_lane: "e \<le> it_start x" if "lx = l"
  proof -
    from assign_lane_cases[OF al] that Cons.prems(1) have "lanes ! l \<le> it_start x" by auto
    with Cons.prems(2) s0x show ?thesis by auto
  qed
  show ?case
  proof (cases j)
    case 0
    with Cons.prems(6) al have "lx = l" by simp
    with same_lane 0 show ?thesis by simp
  next
    case (Suc j')
    have len: "l < length lanes'"
      using assign_lane_cases[OF al] Cons.prems(1) by auto
    have inv: "lanes' ! l = e \<or> e \<le> it_start x"
    proof (cases "lx = l")
      case True
      with same_lane show ?thesis by simp
    next
      case False
      with assign_lane_cases[OF al] Cons.prems(1) have "lanes' ! l = lanes ! l"
        by (auto simp: nth_append)
      with Cons.prems(2) s0x show ?thesis by auto
    qed
    have lb: "\<forall>it \<in> set rest. it_start x \<le> it_start it" using Cons.prems(4) by simp
    have srt: "sorted_wrt (\<lambda>a b. it_start a \<le> it_start b) rest" using Cons.prems(4) by simp
    have j': "j' < length rest" using Cons.prems(5) Suc by simp
    have lane: "snd (allocate_loop now lanes' rest ! j') = l"
      using Cons.prems(6) Suc al by simp
    from Cons.IH[OF len inv lb srt j' lane] Suc show ?thesis by simp
  qed
qed

lemma allocate_loop_separated:
  assumes "sorted_wrt (\<lambda>a b. it_start a \<le> it_start b) its"
    and "i < j" "j < length its"
    and "snd (allocate_loop now lanes its ! i) = snd (allocate_loop now lanes its ! j)"
  shows "effective_end now (its ! i) \<le> it_start (its ! j)"
  using assms
proof (induction its arbitrary: lanes i j)
  case Nil
  then show ?case by simp
next
  case (Cons x rest)
  obtain lx lanes' where al: "assign_lane lanes (it_start x) (effective_end now x) = (lx, lanes')"
    by (cases "assign_lane lanes (it_start x) (effective_end now x)")
  obtain j' where j: "j = Suc j'" using Cons.prems(2) by (cases j) auto
  have j': "j' < length rest" using Cons.prems(3) j by simp
  have srt: "sorted_wrt (\<lambda>a b. it_start a \<le> it_start b) rest" using Cons.prems(1) by simp
  show ?case
  proof (cases i)
    case 0
    have len: "lx < length lanes'" and last: "lanes' ! lx = effective_end now x"
      using assign_lane_cases[OF al] by (auto simp: nth_append)
    have lb: "\<forall>it \<in> set rest. it_start x \<le> it_start it" using Cons.prems(1) by simp
    have lane: "snd (allocate_loop now lanes' rest ! j') = lx"
      using Cons.prems(4) 0 j al by simp
    from later_in_lane[OF len _ lb srt j' lane, of "effective_end now x"] last 0 j
    show ?thesis by simp
  next
    case (Suc i')
    have "i' < j'" using Cons.prems(2) Suc j by simp
    moreover have "snd (allocate_loop now lanes' rest ! i') = snd (allocate_loop now lanes' rest ! j')"
      using Cons.prems(4) Suc j al by simp
    ultimately show ?thesis using Cons.IH[OF srt _ j'] Suc j by simp
  qed
qed

lemma separated_no_overlap:
  "effective_end now a \<le> it_start b \<Longrightarrow> \<not> overlaps now a b \<and> \<not> overlaps now b a"
  by (auto simp: overlaps_def)

lemma overlaps_iff:
  "overlaps now a b \<longleftrightarrow>
     (\<exists>t. it_start a \<le> t \<and> t < effective_end now a \<and> it_start b \<le> t \<and> t < effective_end now b)"
proof
  assume "overlaps now a b"
  then have "it_start a \<le> max (it_start a) (it_start b) \<and>
      max (it_start a) (it_start b) < effective_end now a \<and>
      it_start b \<le> max (it_start a) (it_start b) \<and>
      max (it_start a) (it_start b) < effective_end now b"
    by (simp add: overlaps_def)
  then show "\<exists>t. it_start a \<le> t \<and> t < effective_end now a \<and> it_start b \<le> t \<and> t < effective_end now b"
    by blast
next
  assume "\<exists>t. it_start a \<le> t \<and> t < effective_end now a \<and> it_start b \<le> t \<and> t < effective_end now b"
  then show "overlaps now a b" by (auto simp: overlaps_def)
qed

lemma sorted_starts: "sorted_wrt (\<lambda>a b. it_start a \<le> it_start b) (sort_by (compare_items now) items)"
  using sorted_sort_items[of now items] precedes_start
  by (rule sorted_wrt_mono_rel[rotated]) 


text \<open>
  Claim C1. Lane allocation keeps every interval of the input (as a multiset) and, for
  any two intervals given the same lane, the one processed first has ended (its
  effective end, an absent end counting as now) by the time the other starts; so their
  ranges \<open>[start, end-or-now)\<close> share no instant. An interval that starts exactly
  at another's effective end shares its lane: [10, 20) and [20, 30) both get lane 0.
\<close>

theorem lane_non_overlap:
  "mset (map fst (allocate_lanes now items)) = mset items \<and>
   (\<forall>i j. i < j \<and> j < length items \<and>
      snd (allocate_lanes now items ! i) = snd (allocate_lanes now items ! j) \<longrightarrow>
      effective_end now (fst (allocate_lanes now items ! i))
        \<le> it_start (fst (allocate_lanes now items ! j)) \<and>
      \<not> overlaps now (fst (allocate_lanes now items ! i)) (fst (allocate_lanes now items ! j)) \<and>
      \<not> overlaps now (fst (allocate_lanes now items ! j)) (fst (allocate_lanes now items ! i))) \<and>
   (overlaps now a b \<longleftrightarrow>
      (\<exists>t. it_start a \<le> t \<and> t < effective_end now a \<and> it_start b \<le> t \<and> t < effective_end now b)) \<and>
   map snd (allocate_lanes now [interval 0 10 (Some 20), interval 1 20 (Some 30)]) = [0, 0]"
proof -
  define sorted where "sorted = sort_by (compare_items now) items"
  have fst_eq: "map fst (allocate_lanes now items) = sorted"
    by (simp add: allocate_lanes_def sorted_def map_fst_allocate_loop)
  have len: "length sorted = length items"
    unfolding sorted_def by (metis mset_sort_by size_mset)
  have m: "mset (map fst (allocate_lanes now items)) = mset items"
    unfolding fst_eq sorted_def by (rule mset_sort_by)
  have sep: "effective_end now (fst (allocate_lanes now items ! i))
        \<le> it_start (fst (allocate_lanes now items ! j))"
    if "i < j" "j < length items"
      "snd (allocate_lanes now items ! i) = snd (allocate_lanes now items ! j)" for i j
  proof -
    have j: "j < length sorted" and i: "i < length sorted" using that len by simp_all
    have "effective_end now (sorted ! i) \<le> it_start (sorted ! j)"
      using that(3) unfolding allocate_lanes_def sorted_def[symmetric]
      by (intro allocate_loop_separated[OF _ that(1) j, of now "[]"])
         (simp_all add: sorted_def sorted_starts)
    moreover have "fst (allocate_lanes now items ! i) = sorted ! i"
      using i fst_eq by (metis length_map nth_map)
    moreover have "fst (allocate_lanes now items ! j) = sorted ! j"
      using j fst_eq by (metis length_map nth_map)
    ultimately show ?thesis by simp
  qed
  have touch: "map snd (allocate_lanes now [interval 0 10 (Some 20), interval 1 20 (Some 30)]) = [0, 0]"
    by (simp add: allocate_lanes_def sort_by_def compare_items_def interval_def effective_end_def
        assign_lane_def scan_lanes.simps)
  show ?thesis
    using m sep separated_no_overlap overlaps_iff[of now a b] touch by blast
qed

theorem lane_non_overlap_witness:
  "(0::nat) < 2 \<and> 2 < length scenario_items \<and>
   snd (allocate_lanes 1700000000000 scenario_items ! 0) = 0 \<and>
   snd (allocate_lanes 1700000000000 scenario_items ! 2) = 0 \<and>
   \<not> overlaps 1700000000000 (fst (allocate_lanes 1700000000000 scenario_items ! 0))
       (fst (allocate_lanes 1700000000000 scenario_items ! 2))"
proof -
  have l: "2 < length scenario_items" by code_simp
  have a: "snd (allocate_lanes 1700000000000 scenario_items ! 0) = 0" by code_simp
  have b: "snd (allocate_lanes 1700000000000 scenario_items ! 2) = 0" by code_simp
  from lane_non_overlap[of 1700000000000 scenario_items] l a b
  have "\<not> overlaps 1700000000000 (fst (allocate_lanes 1700000000000 scenario_items ! 0))
       (fst (allocate_lanes 1700000000000 scenario_items ! 2))"
    by (metis zero_less_numeral)
  with l a b show ?thesis by simp
qed


lemma scenario_items_eq:
  "scenario_items =
     [\<lparr>it_id = 0, it_company = ''A'', it_title = [], it_logo = [], it_colorRaw = [],
        it_start = 1577836800000, it_end = Some 1622505600000,
        it_startRaw = ''2020-01'', it_endRaw = ''2021-06''\<rparr>,
      \<lparr>it_id = 1, it_company = ''B'', it_title = [], it_logo = [], it_colorRaw = [],
        it_start = 1590969600000, it_end = Some 1609459200000,
        it_startRaw = ''2020-06'', it_endRaw = ''2021-01''\<rparr>,
      \<lparr>it_id = 2, it_company = ''C'', it_title = [], it_logo = [], it_colorRaw = [],
        it_start = 1625097600000, it_end = None,
        it_startRaw = ''2021-07'', it_endRaw = []\<rparr>]"
  by code_simp

lemma scenario_lanes:
  "map (\<lambda>(it, l). (it_company it, l)) (allocate_lanes now scenario_items) =
     [(''A'', 0), (''B'', 1), (''C'', 0)]"
  unfolding scenario_items_eq
  by (simp add: allocate_lanes_def sort_by_def compare_items_def effective_end_def
        assign_lane_def scan_lanes.simps)

lemma effective_end_cases:
  "effective_end now it = (case it_end it of None \<Rightarrow> now | Some e \<Rightarrow> e)"
  by (simp add: effective_end_def)

lemma tie_with_ongoing:
  "map (\<lambda>(it, l). (it_id it, l))
     (allocate_lanes now [interval 0 10 (Some 20), interval 1 10 None]) =
   (if 20 < now then [(1, 0), (0, 1)] else [(0, 0), (1, 1)])"
  by (simp add: allocate_lanes_def sort_by_def compare_items_def effective_end_def
        assign_lane_def scan_lanes.simps interval_def)

lemma ongoing_last_end:
  "map (\<lambda>(it, l). (it_id it, l))
     (allocate_lanes now [interval 0 10 None, interval 1 50 (Some 60), interval 2 100 (Some 110)]) =
   (if now \<le> 100 then [(0, 0), (1, if now \<le> 50 then 0 else 1), (2, 0)]
    else [(0, 0), (1, 1), (2, 1)])"
  by (simp add: allocate_lanes_def sort_by_def compare_items_def effective_end_def
        assign_lane_def scan_lanes.simps interval_def)

text \<open>
  Claim C2. The items are processed in the order of the sort: a rearrangement of the
  input in which every item precedes the later ones by ascending start, ties by
  descending effective end, items equal in both keeping their input order. The
  effective end of an interval is its end, and now when the end is absent. Each step
  gives the item the first lane, in creation order, whose last end is at most the
  item's start and sets that lane's last end to the item's effective end; only when
  no lane qualifies is a new lane appended. Of two intervals that start together, one
  ending at 20 and one ongoing, the ongoing one is processed first exactly when now is
  later than 20; a lane whose last interval is ongoing is free again for the
  intervals that start at now or later. For A: 2020-01 to 2021-06, B: 2020-06 to
  2021-01, C: 2021-07 and ongoing, the lanes are 0, 1, 0, whatever the current
  instant.
\<close>

theorem lane_policy:
  "mset (sort_by (compare_items now) items) = mset items \<and>
   sorted_wrt
     (\<lambda>a b. it_start a < it_start b \<or>
            (it_start a = it_start b \<and>
             (case it_end b of None \<Rightarrow> now | Some e \<Rightarrow> e)
               \<le> (case it_end a of None \<Rightarrow> now | Some e \<Rightarrow> e)))
     (sort_by (compare_items now) items) \<and>
   filter (\<lambda>y. (it_start y, case it_end y of None \<Rightarrow> now | Some e \<Rightarrow> e) = k)
       (sort_by (compare_items now) items) =
     filter (\<lambda>y. (it_start y, case it_end y of None \<Rightarrow> now | Some e \<Rightarrow> e) = k) items \<and>
   map fst (allocate_lanes now items) = sort_by (compare_items now) items \<and>
   allocate_lanes now items = allocate_loop now [] (sort_by (compare_items now) items) \<and>
   allocate_loop now lanes (it # its) =
     (it, fst (assign_lane lanes (it_start it) (case it_end it of None \<Rightarrow> now | Some e \<Rightarrow> e)))
       # allocate_loop now
           (snd (assign_lane lanes (it_start it) (case it_end it of None \<Rightarrow> now | Some e \<Rightarrow> e)))
           its \<and>
   (assign_lane lanes s e = (l, lanes') \<longrightarrow>
      (l < length lanes \<and> lanes ! l \<le> s \<and> (\<forall>j<l. s < lanes ! j) \<and> lanes' = lanes[l := e]) \<or>
      (l = length lanes \<and> (\<forall>j<length lanes. s < lanes ! j) \<and> lanes' = lanes @ [e])) \<and>
   map (\<lambda>(it, l). (it_id it, l))
       (allocate_lanes now [interval 0 10 (Some 20), interval 1 10 None]) =
     (if 20 < now then [(1, 0), (0, 1)] else [(0, 0), (1, 1)]) \<and>
   map (\<lambda>(it, l). (it_id it, l))
       (allocate_lanes now
          [interval 0 10 None, interval 1 50 (Some 60), interval 2 100 (Some 110)]) =
     (if now \<le> 100 then [(0, 0), (1, if now \<le> 50 then 0 else 1), (2, 0)]
      else [(0, 0), (1, 1), (2, 1)]) \<and>
   make_items 0 scenario_rows = Inr scenario_parsed \<and>
   layout_items scenario_parsed = Some scenario_items \<and>
   map (\<lambda>(it, l). (it_company it, l)) (allocate_lanes now scenario_items) =
     [(''A'', 0), (''B'', 1), (''C'', 0)]"
proof -
  have a: "mset (sort_by (compare_items now) items) = mset items" by (rule mset_sort_by)
  have b: "sorted_wrt
     (\<lambda>a b. it_start a < it_start b \<or>
            (it_start a = it_start b \<and>
             (case it_end b of None \<Rightarrow> now | Some e \<Rightarrow> e)
               \<le> (case it_end a of None \<Rightarrow> now | Some e \<Rightarrow> e)))
     (sort_by (compare_items now) items)"
    using sorted_sort_items[of now items]
    by (simp add: precedes_def[abs_def] effective_end_def)
  have st: "filter (\<lambda>y. (it_start y, case it_end y of None \<Rightarrow> now | Some e \<Rightarrow> e) = k)
       (sort_by (compare_items now) items) =
     filter (\<lambda>y. (it_start y, case it_end y of None \<Rightarrow> now | Some e \<Rightarrow> e) = k) items"
    using sort_items_stable[of now k items] by (simp add: effective_end_def)
  have c: "map fst (allocate_lanes now items) = sort_by (compare_items now) items"
    by (simp add: allocate_lanes_def map_fst_allocate_loop)
  have d: "allocate_loop now lanes (it # its) =
     (it, fst (assign_lane lanes (it_start it) (case it_end it of None \<Rightarrow> now | Some e \<Rightarrow> e)))
       # allocate_loop now
           (snd (assign_lane lanes (it_start it) (case it_end it of None \<Rightarrow> now | Some e \<Rightarrow> e)))
           its"
    by (simp add: effective_end_def split: prod.splits)
  have e1: "make_items 0 scenario_rows = Inr scenario_parsed" by code_simp
  have e2: "layout_items scenario_parsed = Some scenario_items" by code_simp
  show ?thesis
    using a b st c d e1 e2 assign_lane_cases[of lanes s e l lanes'] scenario_lanes[of now]
      tie_with_ongoing[of now] ongoing_last_end[of now]
    unfolding allocate_lanes_def by blast
qed

theorem lane_policy_witness:
  "assign_lane [1622505600000, 1609459200000] 1625097600000 1700000000000
     = (0, [1700000000000, 1609459200000]) \<and>
   (0::nat) < length [1622505600000, 1609459200000 :: int] \<and>
   [1622505600000, 1609459200000 :: int] ! 0 \<le> 1625097600000 \<and>
   assign_lane [1622505600000] 1590969600000 1609459200000
     = (1, [1622505600000, 1609459200000]) \<and>
   map (\<lambda>(it, l). (it_id it, l))
       (allocate_lanes 1700000000000 [interval 0 10 (Some 20), interval 1 10 None]) =
     [(1, 0), (0, 1)] \<and>
   map (\<lambda>(it, l). (it_id it, l))
       (allocate_lanes 100
          [interval 0 10 None, interval 1 50 (Some 60), interval 2 100 (Some 110)]) =
     [(0, 0), (1, 1), (2, 0)]"
proof -
  have a: "assign_lane [1622505600000, 1609459200000] 1625097600000 1700000000000
     = (0, [1700000000000, 1609459200000])" by code_simp
  have b: "assign_lane [1622505600000] 1590969600000 1609459200000
     = (1, [1622505600000, 1609459200000])" by code_simp
  from a lane_policy[where lanes="[1622505600000, 1609459200000]" and s=1625097600000
      and e=1700000000000 and l=0 and lanes'="[1700000000000, 1609459200000]"]
  have c: "(0::nat) < length [1622505600000, 1609459200000 :: int] \<and>
        [1622505600000, 1609459200000 :: int] ! 0 \<le> 1625097600000"
    by simp
  from lane_policy[where now=1700000000000]
  have d: "map (\<lambda>(it, l). (it_id it, l))
       (allocate_lanes 1700000000000 [interval 0 10 (Some 20), interval 1 10 None]) =
     (if (20::int) < 1700000000000 then [(1, 0), (0, 1)] else [(0, 0), (1, 1)])"
    by blast
  from lane_policy[where now=100]
  have e: "map (\<lambda>(it, l). (it_id it, l))
       (allocate_lanes 100
          [interval 0 10 None, interval 1 50 (Some 60), interval 2 100 (Some 110)]) =
     (if (100::int) \<le> 100 then [(0, 0), (1, if (100::int) \<le> 50 then 0 else 1), (2, 0)]
      else [(0, 0), (1, 1), (2, 1)])"
    by blast
  from a b c d e show ?thesis by simp
qed

section \<open>Layout: proofs\<close>

subsection \<open>Animation\<close>

lemma length_allocate_lanes: "length (allocate_lanes now items) = length items"
  unfolding allocate_lanes_def length_allocate_loop
  by (metis mset_sort_by size_mset)

lemma x_scale_Some_iff: "(\<exists>sc. x_scale opts now items = Some sc) \<longleftrightarrow> items \<noteq> []"
  by (cases items) (auto simp: x_scale_def split: option.splits)

lemma layout_jobs:
  "l_animation (generate_layout opts now items) =
     animation_plan (o_animationTotalDuration opts) (length items)"
  "length (l_jobs (generate_layout opts now items)) = length items"
  "i < length items \<Longrightarrow>
     j_delay (l_jobs (generate_layout opts now items) ! i) =
       item_delay (l_animation (generate_layout opts now items)) i"
proof -
  define laid where "laid = allocate_lanes now items"
  have len: "length laid = length items" by (simp add: laid_def length_allocate_lanes)
  define an where "an = animation_plan (o_animationTotalDuration opts) (length laid)"
  show a: "l_animation (generate_layout opts now items) =
     animation_plan (o_animationTotalDuration opts) (length items)"
    by (simp add: generate_layout_def Let_def length_allocate_lanes split: option.splits)
  show l: "length (l_jobs (generate_layout opts now items)) = length items"
  proof (cases "x_scale opts now items")
    case None
    with x_scale_Some_iff[of opts now items] have "items = []" by simp
    with None show ?thesis by (simp add: generate_layout_def Let_def)
  next
    case (Some sc)
    then show ?thesis by (simp add: generate_layout_def Let_def length_allocate_lanes)
  qed
  show "j_delay (l_jobs (generate_layout opts now items) ! i) =
       item_delay (l_animation (generate_layout opts now items)) i" if i: "i < length items"
  proof -
    from i x_scale_Some_iff[of opts now items] obtain sc where
      sc: "x_scale opts now items = Some sc" by auto
    define baseY where "baseY = baselineY opts (laneCount (map snd laid))"
    have "l_jobs (generate_layout opts now items) =
        map (\<lambda>(i, itl). job_geometry opts (project sc) now baseY an i itl)
          (zip [0..<length laid] laid)"
      using sc by (simp add: generate_layout_def Let_def laid_def an_def baseY_def)
    then have "l_jobs (generate_layout opts now items) ! i =
        job_geometry opts (project sc) now baseY an i (laid ! i)"
      using i len by simp
    moreover have "l_animation (generate_layout opts now items) = an"
      unfolding a an_def len ..
    ultimately show ?thesis by (simp add: job_geometry_def Let_def)
  qed
qed

text \<open>
  Claim C4. With \<open>n > 0\<close> items and total duration \<open>T\<close>: the baseline stage lasts
  \<open>0.15 T\<close>; the labels stage starts when the baseline stage ends and lasts
  \<open>0.10 T\<close>; the items stage starts when the labels stage ends and lasts \<open>0.75 T\<close>;
  the slot of an item is \<open>0.75 T / n\<close>, item \<open>i\<close> is delayed by
  \<open>0.25 T + i (0.75 T / n)\<close> and revealed in half a slot. These are the delays a
  render gives its items. For \<open>T = 10\<close> and 4 items the slot is 1.875, the delays of
  items 0 and 2 are 2.5 and 6.25, and the reveal lasts 0.9375.
\<close>

theorem animation_schedule:
  assumes "0 < n"
  shows "a_baselineDuration (animation_plan T n) = 0.15 * T \<and>
         a_datesDuration (animation_plan T n) = 0.10 * T \<and>
         a_datesDelay (animation_plan T n) = a_baselineDuration (animation_plan T n) \<and>
         a_jobsDuration (animation_plan T n) = 0.75 * T \<and>
         a_jobsStartTime (animation_plan T n) =
           a_datesDelay (animation_plan T n) + a_datesDuration (animation_plan T n) \<and>
         a_durationPerJob (animation_plan T n) = 0.75 * T / real n \<and>
         item_delay (animation_plan T n) i = 0.25 * T + real i * (0.75 * T / real n) \<and>
         a_jobPartAnimDuration (animation_plan T n) = a_durationPerJob (animation_plan T n) / 2 \<and>
         closingConnectorDelay (animation_plan T n) i =
           item_delay (animation_plan T n) i + a_jobPartAnimDuration (animation_plan T n) \<and>
         (length items = n \<and> i < n \<longrightarrow>
            l_animation (generate_layout opts now items) =
              animation_plan (o_animationTotalDuration opts) n \<and>
            j_delay (l_jobs (generate_layout opts now items) ! i) =
              item_delay (l_animation (generate_layout opts now items)) i) \<and>
         a_durationPerJob (animation_plan 10 4) = 1.875 \<and>
         item_delay (animation_plan 10 4) 0 = 2.5 \<and>
         item_delay (animation_plan 10 4) 2 = 6.25 \<and>
         a_jobPartAnimDuration (animation_plan 10 4) = 0.9375"
proof -
  have m: "max (Suc 0) n = n" using assms by simp
  have stages: "a_baselineDuration (animation_plan T n) = 0.15 * T"
    "a_datesDuration (animation_plan T n) = 0.10 * T"
    "a_datesDelay (animation_plan T n) = a_baselineDuration (animation_plan T n)"
    "a_jobsDuration (animation_plan T n) = 0.75 * T"
    "a_jobsStartTime (animation_plan T n) =
           a_datesDelay (animation_plan T n) + a_datesDuration (animation_plan T n)"
    by (simp_all add: animation_plan_def Let_def)
  have slot: "a_durationPerJob (animation_plan T n) = 0.75 * T / real n"
    by (simp add: animation_plan_def Let_def m)
  have delay: "item_delay (animation_plan T n) i = 0.25 * T + real i * (0.75 * T / real n)"
    unfolding item_delay_def slot by (simp add: animation_plan_def Let_def)
  have reveal: "a_jobPartAnimDuration (animation_plan T n) = a_durationPerJob (animation_plan T n) / 2"
    by (simp add: animation_plan_def Let_def)
  have closing: "closingConnectorDelay (animation_plan T n) i =
           item_delay (animation_plan T n) i + a_jobPartAnimDuration (animation_plan T n)"
    by (simp add: closingConnectorDelay_def)
  have render: "l_animation (generate_layout opts now items) =
              animation_plan (o_animationTotalDuration opts) n \<and>
            j_delay (l_jobs (generate_layout opts now items) ! i) =
              item_delay (l_animation (generate_layout opts now items)) i"
    if "length items = n" "i < n"
    using layout_jobs(1)[of opts now items] layout_jobs(3)[of i items opts now] that by simp
  have ex: "a_durationPerJob (animation_plan 10 4) = 1.875"
    "item_delay (animation_plan 10 4) 0 = 2.5"
    "item_delay (animation_plan 10 4) 2 = 6.25"
    "a_jobPartAnimDuration (animation_plan 10 4) = 0.9375"
    by (simp_all add: animation_plan_def item_delay_def Let_def)
  show ?thesis
    using stages slot delay reveal closing render ex by blast
qed

theorem animation_schedule_witness:
  "(0::nat) < 3 \<and> length scenario_items = 3 \<and>
   item_delay (animation_plan 5 3) 1 = 2.5 \<and>
   j_delay (l_jobs (generate_layout default_options 1700000000000 scenario_items) ! 1) = 2.5"
proof -
  have len: "length scenario_items = 3" by code_simp
  have T: "o_animationTotalDuration default_options = 5" by (simp add: default_options_def)
  from animation_schedule[of 3 5 1 scenario_items default_options 1700000000000] len T
  have "item_delay (animation_plan 5 3) 1 = 2.5"
    and "j_delay (l_jobs (generate_layout default_options 1700000000000 scenario_items) ! 1) = 2.5"
    by simp_all
  with len show ?thesis by simp
qed

subsection \<open>Date labels\<close>

lemma too_close_iff:
  "too_close drawn nx \<longleftrightarrow> (\<exists>x \<in> set drawn. \<bar>x - nx\<bar> < labelProximityThreshold)"
  by (simp add: too_close_def list_ex_iff)

lemma label_step_start:
  "start_label (fst (label_step opts xScale baseY drawn (it, lane))) =
     (if o_includeStartDate opts \<and> \<not> too_close drawn (xScale (it_start it))
      then Some (xScale (it_start it)) else None)"
  by (simp add: label_step_def Let_def)

lemma label_step_end:
  "end_label (fst (label_step opts xScale baseY drawn (it, lane))) =
     (case it_end it of
        None \<Rightarrow> None
      | Some e \<Rightarrow>
          if o_includeEndDate opts \<and>
             \<not> too_close
                 (drawn @ (case start_label (fst (label_step opts xScale baseY drawn (it, lane))) of
                             None \<Rightarrow> [] | Some x \<Rightarrow> [x]))
                 (xScale e)
          then Some (xScale e) else None)"
  by (simp add: label_step_def Let_def split: option.splits)

lemma label_step_drawn:
  "snd (label_step opts xScale baseY drawn itl) =
     drawn @ rendered [fst (label_step opts xScale baseY drawn itl)]"
  by (auto simp: label_step_def Let_def rendered_def)

lemma place_labels_Cons:
  "place_labels opts xScale baseY drawn (itl # rest) =
     fst (label_step opts xScale baseY drawn itl)
       # place_labels opts xScale baseY (snd (label_step opts xScale baseY drawn itl)) rest"
  by (simp split: prod.splits)

lemma rendered_Cons: "rendered (l # ls) = rendered [l] @ rendered ls"
  by (simp add: rendered_def)

lemma label_step_far:
  assumes "sorted_wrt far drawn"
  shows "sorted_wrt far (snd (label_step opts xScale baseY drawn itl))"
proof -
  obtain it lane where itl: "itl = (it, lane)" by (cases itl)
  define nx where "nx = xScale (it_start it)"
  define startDrawn where "startDrawn = (o_includeStartDate opts \<and> \<not> too_close drawn nx)"
  define drawn1 where "drawn1 = (if startDrawn then drawn @ [nx] else drawn)"
  have d1: "sorted_wrt far drawn1"
    using assms unfolding drawn1_def startDrawn_def
    by (auto simp: sorted_wrt_append too_close_iff far_def)
  define ex where "ex = map_option xScale (it_end it)"
  define endDrawn where
    "endDrawn = (o_includeEndDate opts \<and> ex \<noteq> None \<and> \<not> too_close drawn1 (the ex))"
  have "snd (label_step opts xScale baseY drawn itl) =
          (if endDrawn then drawn1 @ [the ex] else drawn1)"
    by (simp add: label_step_def Let_def itl endDrawn_def ex_def drawn1_def startDrawn_def nx_def)
  moreover have "sorted_wrt far (if endDrawn then drawn1 @ [the ex] else drawn1)"
    using d1 unfolding endDrawn_def
    by (auto simp: sorted_wrt_append too_close_iff far_def)
  ultimately show ?thesis by simp
qed

lemma place_labels_far:
  assumes "sorted_wrt far drawn"
  shows "sorted_wrt far (drawn @ rendered (place_labels opts xScale baseY drawn laid))"
  using assms
proof (induction laid arbitrary: drawn)
  case Nil
  then show ?case by (simp add: rendered_def)
next
  case (Cons itl rest)
  let ?step = "label_step opts xScale baseY drawn itl"
  have "sorted_wrt far (snd ?step @ rendered (place_labels opts xScale baseY (snd ?step) rest))"
    by (rule Cons.IH) (rule label_step_far[OF Cons.prems])
  moreover have "drawn @ rendered (place_labels opts xScale baseY drawn (itl # rest)) =
      snd ?step @ rendered (place_labels opts xScale baseY (snd ?step) rest)"
    by (simp only: place_labels_Cons label_step_drawn append_assoc
          rendered_Cons[of "fst ?step" "place_labels opts xScale baseY (drawn @ rendered [fst ?step]) rest"])
  ultimately show ?case by simp
qed

lemma two_start_labels:
  assumes "o_includeStartDate opts"
  shows "map start_label (place_labels opts xScale baseY [] [(a, la), (b, lb)]) =
           [Some (xScale (it_start a)),
            if \<bar>xScale (it_start a) - xScale (it_start b)\<bar> < 20 \<or>
               (case it_end a of
                  None \<Rightarrow> False
                | Some e \<Rightarrow>
                    o_includeEndDate opts \<and> \<not> \<bar>xScale (it_start a) - xScale e\<bar> < 20 \<and>
                    \<bar>xScale e - xScale (it_start b)\<bar> < 20)
            then None else Some (xScale (it_start b))]"
  using assms
  by (auto simp: label_step_def Let_def too_close_def labelProximityThreshold_def
        split: option.splits)

text \<open>
  Claim C3, as amended. Before a start or end label is placed at \<open>x\<close>, the
  coordinates of the labels placed so far in this render are searched for one less
  than the threshold of 20 pixels away; if there is one the label is not rendered,
  otherwise it is rendered at \<open>x\<close> itself and \<open>x\<close> joins the set. There is one running
  set and one pass: the items are taken in the order of the lane allocation, and for
  each item its start label is handled and then its end label, starting from the
  empty set. Hence any two rendered labels are at least 20 pixels apart. Of two start
  labels 15 pixels apart only the first is rendered; 25 pixels apart, both are,
  unless the end label of the first item was rendered less than 20 pixels from the
  second start.
\<close>

theorem label_suppression:
  "start_label (fst (label_step opts xScale baseY drawn (it, lane))) =
     (if o_includeStartDate opts \<and>
         \<not> (\<exists>x \<in> set drawn. \<bar>x - xScale (it_start it)\<bar> < labelProximityThreshold)
      then Some (xScale (it_start it)) else None) \<and>
   end_label (fst (label_step opts xScale baseY drawn (it, lane))) =
     (case it_end it of
        None \<Rightarrow> None
      | Some e \<Rightarrow>
          if o_includeEndDate opts \<and>
             \<not> (\<exists>x \<in> set (drawn @ (case start_label (fst (label_step opts xScale baseY drawn (it, lane))) of
                                      None \<Rightarrow> [] | Some x \<Rightarrow> [x])).
                  \<bar>x - xScale e\<bar> < labelProximityThreshold)
          then Some (xScale e) else None) \<and>
   snd (label_step opts xScale baseY drawn (it, lane)) =
     drawn @ rendered [fst (label_step opts xScale baseY drawn (it, lane))] \<and>
   place_labels opts xScale baseY drawn ((it, lane) # rest) =
     fst (label_step opts xScale baseY drawn (it, lane))
       # place_labels opts xScale baseY (snd (label_step opts xScale baseY drawn (it, lane))) rest \<and>
   sorted_wrt (\<lambda>x y. labelProximityThreshold \<le> \<bar>x - y\<bar>)
     (rendered (place_labels opts xScale baseY [] laid)) \<and>
   ((o_includeStartDate opts \<or> o_includeEndDate opts) \<and> x_scale opts now items = Some sc \<longrightarrow>
      l_labels (generate_layout opts now items) =
        place_labels opts (project sc)
          (baselineY opts (laneCount (map snd (allocate_lanes now items)))) []
          (allocate_lanes now items)) \<and>
   labelProximityThreshold = 20 \<and>
   (o_includeStartDate opts \<longrightarrow>
      map start_label (place_labels opts xScale baseY [] [(a, la), (b, lb)]) =
        [Some (xScale (it_start a)),
         if \<bar>xScale (it_start a) - xScale (it_start b)\<bar> < 20 \<or>
            (case it_end a of
               None \<Rightarrow> False
             | Some e \<Rightarrow>
                 o_includeEndDate opts \<and> \<not> \<bar>xScale (it_start a) - xScale e\<bar> < 20 \<and>
                 \<bar>xScale e - xScale (it_start b)\<bar> < 20)
         then None else Some (xScale (it_start b))]) \<and>
   map start_label
     (place_labels default_options (\<lambda>t. 30 + real_of_int t) 180 []
        [(interval 0 0 None, 0), (interval 1 15 None, 1)]) = [Some 30, None] \<and>
   map start_label
     (place_labels default_options (\<lambda>t. 30 + real_of_int t) 180 []
        [(interval 0 0 None, 0), (interval 1 25 None, 1)]) = [Some 30, Some 55] \<and>
   map start_label
     (place_labels default_options (\<lambda>t. 30 + real_of_int t) 180 []
        [(interval 0 0 (Some 1000), 0), (interval 1 25 (Some 1100), 1)]) = [Some 30, Some 55]"
proof -
  have sep: "sorted_wrt (\<lambda>x y. labelProximityThreshold \<le> \<bar>x - y\<bar>)
     (rendered (place_labels opts xScale baseY [] laid))"
    using place_labels_far[of "[]" opts xScale baseY laid] by (simp add: far_def[abs_def])
  have thr: "labelProximityThreshold = 20" by (simp add: labelProximityThreshold_def)
  have ex15: "map start_label
     (place_labels default_options (\<lambda>t. 30 + real_of_int t) 180 []
        [(interval 0 0 None, 0), (interval 1 15 None, 1)]) = [Some 30, None]"
    by (simp add: label_step_def Let_def too_close_def default_options_def interval_def thr)
  have ex25: "map start_label
     (place_labels default_options (\<lambda>t. 30 + real_of_int t) 180 []
        [(interval 0 0 None, 0), (interval 1 25 None, 1)]) = [Some 30, Some 55]"
    by (simp add: label_step_def Let_def too_close_def default_options_def interval_def thr)
  have ex25e: "map start_label
     (place_labels default_options (\<lambda>t. 30 + real_of_int t) 180 []
        [(interval 0 0 (Some 1000), 0), (interval 1 25 (Some 1100), 1)]) = [Some 30, Some 55]"
    by (simp add: label_step_def Let_def too_close_def default_options_def interval_def thr)
  have render: "l_labels (generate_layout opts now items) =
        place_labels opts (project sc)
          (baselineY opts (laneCount (map snd (allocate_lanes now items)))) []
          (allocate_lanes now items)"
    if "o_includeStartDate opts \<or> o_includeEndDate opts" "x_scale opts now items = Some sc"
    using that by (simp add: generate_layout_def Let_def)
  show ?thesis
    using render label_step_start[of opts xScale baseY drawn it lane]
      label_step_end[of opts xScale baseY drawn it lane]
      label_step_drawn[of opts xScale baseY drawn "(it, lane)"]
      place_labels_Cons[of opts xScale baseY drawn "(it, lane)" rest]
      sep thr two_start_labels[of opts xScale baseY a la b lb] ex15 ex25 ex25e
    unfolding too_close_iff by simp
qed

theorem label_suppression_witness:
  "o_includeStartDate default_options \<and>
   map start_label
     (place_labels default_options (\<lambda>t. 30 + real_of_int t) 180 []
        [(interval 0 0 (Some 40), 0), (interval 1 50 None, 1)]) = [Some 30, None]"
proof -
  have h: "o_includeStartDate default_options" "o_includeEndDate default_options"
    by (simp_all add: default_options_def)
  have s: "it_start (interval 0 0 (Some 40)) = 0" "it_start (interval 1 50 None) = 50"
    "it_end (interval 0 0 (Some 40)) = Some 40"
    by (simp_all add: interval_def)
  from label_suppression[where opts=default_options and a="interval 0 0 (Some 40)"
      and b="interval 1 50 None" and xScale="\<lambda>t. 30 + real_of_int t" and baseY=180
      and la=0 and lb=1] h(1)
  have "map start_label
     (place_labels default_options (\<lambda>t. 30 + real_of_int t) 180 []
        [(interval 0 0 (Some 40), 0), (interval 1 50 None, 1)]) =
        [Some (30 + real_of_int (it_start (interval 0 0 (Some 40)))),
         if \<bar>(30 + real_of_int (it_start (interval 0 0 (Some 40)))) -
             (30 + real_of_int (it_start (interval 1 50 None)))\<bar> < 20 \<or>
            (case it_end (interval 0 0 (Some 40)) of
               None \<Rightarrow> False
             | Some e \<Rightarrow>
                 o_includeEndDate default_options \<and>
                 \<not> \<bar>(30 + real_of_int (it_start (interval 0 0 (Some 40)))) - (30 + real_of_int e)\<bar> < 20 \<and>
                 \<bar>(30 + real_of_int e) - (30 + real_of_int (it_start (interval 1 50 None)))\<bar> < 20)
         then None else Some (30 + real_of_int (it_start (interval 1 50 None)))]"
    by blast
  then show ?thesis using h unfolding s by simp
qed

text \<open>
  The claim as first stated fails: two start labels 25 pixels apart do not both render
  when the end label of the first item lies between them. One interval from 0 to 30
  and one ongoing from 25, rendered at now = 1140 with the default options (one pixel
  per unit, the range starting at 30): the labels are handled in the order start 30,
  end 60, start 55, and the second start, 25 pixels from the first, is suppressed by
  the end label 5 pixels away. Start and end labels are not two passes.
\<close>

theorem label_suppression_counterexample:
  "map (\<lambda>g. (j_x1 g, j_x2 g))
     (l_jobs (generate_layout default_options 1140 [interval 0 0 (Some 30), interval 1 25 None]))
     = [(30, 60), (55, 1170)] \<and>
   \<bar>(30::real) - 55\<bar> = 25 \<and> \<not> \<bar>(30::real) - 55\<bar> < 20 \<and>
   map (\<lambda>l. (start_label l, end_label l))
     (l_labels (generate_layout default_options 1140 [interval 0 0 (Some 30), interval 1 25 None]))
     = [(Some 30, Some 60), (None, None)] \<and>
   map (\<lambda>l. (start_label l, end_label l))
     (place_labels default_options (\<lambda>t. 30 + real_of_int t) 180 []
        [(interval 0 0 (Some 30), 0), (interval 1 25 None, 1)])
     = [(Some 30, Some 60), (None, None)]"
  by (simp add: generate_layout_def Let_def x_scale_def allocate_lanes_def sort_by_def
        compare_items_def assign_lane_def scan_lanes.simps interval_def effective_end_def
        default_options_def job_geometry_def project_def label_step_def too_close_def
        labelProximityThreshold_def)

subsection \<open>Time scale\<close>

lemma d3_min_Min: "xs \<noteq> [] \<Longrightarrow> d3_min xs = Some (Min (set xs))"
proof (induction xs)
  case Nil
  then show ?case by simp
next
  case (Cons v vs)
  show ?case
  proof (cases "vs = []")
    case True
    then show ?thesis by simp
  next
    case False
    with Cons.IH show ?thesis by (simp add: Min_insert min.commute)
  qed
qed

lemma d3_max_Max: "xs \<noteq> [] \<Longrightarrow> d3_max xs = Some (Max (set xs))"
proof (induction xs)
  case Nil
  then show ?case by simp
next
  case (Cons v vs)
  show ?case
  proof (cases "vs = []")
    case True
    then show ?thesis by simp
  next
    case False
    with Cons.IH show ?thesis by (simp add: Max_insert max.commute)
  qed
qed

lemma x_scale_domain:
  assumes "x_scale opts now items = Some sc"
  shows "domainStart sc = Min (it_start ` set items)"
    and "domainEnd sc = Max (effective_end now ` set items)"
    and "rangeStart sc = m_left (o_margin opts)"
    and "rangeEnd sc = o_width opts - m_right (o_margin opts)"
proof -
  from assms x_scale_Some_iff[of opts now items] have ne: "items \<noteq> []" by blast
  then have a: "d3_min (map it_start items) = Some (Min (it_start ` set items))"
    and b: "d3_max (map (effective_end now) items) = Some (Max (effective_end now ` set items))"
    using d3_min_Min[of "map it_start items"] d3_max_Max[of "map (effective_end now) items"]
    by simp_all
  from assms show "domainStart sc = Min (it_start ` set items)"
    and "domainEnd sc = Max (effective_end now ` set items)"
    and "rangeStart sc = m_left (o_margin opts)"
    and "rangeEnd sc = o_width opts - m_right (o_margin opts)"
    unfolding x_scale_def a b by auto
qed

lemma project_mono:
  assumes "rangeStart sc \<le> rangeEnd sc" "domainStart sc \<le> domainEnd sc" "t1 \<le> t2"
  shows "project sc t1 \<le> project sc t2"
proof (cases "domainEnd sc = domainStart sc")
  case True
  then show ?thesis by (simp add: project_def)
next
  case False
  with assms(2) have w: "0 < real_of_int (domainEnd sc - domainStart sc)" by simp
  have "real_of_int (t1 - domainStart sc) \<le> real_of_int (t2 - domainStart sc)"
    using assms(3) by simp
  then have "real_of_int (t1 - domainStart sc) / real_of_int (domainEnd sc - domainStart sc)
      \<le> real_of_int (t2 - domainStart sc) / real_of_int (domainEnd sc - domainStart sc)"
    using w by (simp only: divide_right_mono less_imp_le)
  then have "real_of_int (t1 - domainStart sc) / real_of_int (domainEnd sc - domainStart sc)
        * (rangeEnd sc - rangeStart sc)
      \<le> real_of_int (t2 - domainStart sc) / real_of_int (domainEnd sc - domainStart sc)
        * (rangeEnd sc - rangeStart sc)"
    using assms(1) by (intro mult_right_mono) simp_all
  with False show ?thesis by (simp add: project_def)
qed

text \<open>
  Claim C7, as amended. The domain of the scale runs from the least start to the
  greatest effective end. When the pixel range is not inverted
  (\<open>margin.left \<le> width - margin.right\<close>, as with the default options), any two
  instants \<open>t1 \<le> t2\<close> of the domain satisfy \<open>project t1 \<le> project t2\<close>.
\<close>

theorem scale_monotone:
  assumes "x_scale opts now items = Some sc"
    and "m_left (o_margin opts) \<le> o_width opts - m_right (o_margin opts)"
    and "domainStart sc \<le> t1" "t1 \<le> t2" "t2 \<le> domainEnd sc"
  shows "domainStart sc = Min (it_start ` set items) \<and>
         domainEnd sc = Max (effective_end now ` set items) \<and>
         project sc t1 \<le> project sc t2"
proof -
  have "rangeStart sc \<le> rangeEnd sc"
    using assms(2) x_scale_domain(3,4)[OF assms(1)] by simp
  moreover have "domainStart sc \<le> domainEnd sc" using assms(3-5) by linarith
  ultimately have "project sc t1 \<le> project sc t2" using assms(4) by (rule project_mono)
  with x_scale_domain(1,2)[OF assms(1)] show ?thesis by simp
qed

theorem scale_monotone_witness:
  "x_scale default_options 100 [interval 0 0 None] =
     Some \<lparr>domainStart = 0, domainEnd = 100, rangeStart = 30, rangeEnd = 1170\<rparr> \<and>
   m_left (o_margin default_options) \<le> o_width default_options - m_right (o_margin default_options) \<and>
   (0::int) \<le> 25 \<and> (25::int) \<le> 75 \<and> (75::int) \<le> 100 \<and>
   project \<lparr>domainStart = 0, domainEnd = 100, rangeStart = 30, rangeEnd = 1170\<rparr> 25
     \<le> project \<lparr>domainStart = 0, domainEnd = 100, rangeStart = 30, rangeEnd = 1170\<rparr> 75"
proof -
  have s: "x_scale default_options 100 [interval 0 0 None] =
     Some \<lparr>domainStart = 0, domainEnd = 100, rangeStart = 30, rangeEnd = 1170\<rparr>"
    by (simp add: x_scale_def default_options_def interval_def effective_end_def)
  have m: "m_left (o_margin default_options) \<le> o_width default_options - m_right (o_margin default_options)"
    by (simp add: default_options_def)
  from scale_monotone[OF s m, of 25 75] s m show ?thesis by simp
qed

text \<open>
  The claim as first stated fails: with \<open>width = 10\<close> and the default margins of 30
  the range runs from 30 down to -20, and the two ends of the domain (one interval
  from 1 January 2020, ongoing at a render in November 2023) are projected in
  decreasing order.
\<close>

theorem scale_monotone_counterexample:
  "x_scale (default_options\<lparr>o_width := 10\<rparr>) 1700000000000 [interval 0 1577836800000 None] =
     Some \<lparr>domainStart = 1577836800000, domainEnd = 1700000000000,
           rangeStart = 30, rangeEnd = - 20\<rparr> \<and>
   (1577836800000::int) \<le> 1700000000000 \<and>
   project \<lparr>domainStart = 1577836800000, domainEnd = 1700000000000,
            rangeStart = 30, rangeEnd = - 20\<rparr> 1577836800000 = 30 \<and>
   project \<lparr>domainStart = 1577836800000, domainEnd = 1700000000000,
            rangeStart = 30, rangeEnd = - 20\<rparr> 1700000000000 = - 20 \<and>
   \<not> project \<lparr>domainStart = 1577836800000, domainEnd = 1700000000000,
              rangeStart = 30, rangeEnd = - 20\<rparr> 1577836800000
       \<le> project \<lparr>domainStart = 1577836800000, domainEnd = 1700000000000,
                rangeStart = 30, rangeEnd = - 20\<rparr> 1700000000000"
  by (simp add: x_scale_def default_options_def interval_def effective_end_def project_def)

subsection \<open>Degenerate inputs\<close>

lemma job_geometry_bar:
  "6 \<le> j_w (job_geometry opts xScale now baseY an i itl) \<and>
   j_w (job_geometry opts xScale now baseY an i itl) =
     max 6 (j_x2 (job_geometry opts xScale now baseY an i itl) -
            j_x1 (job_geometry opts xScale now baseY an i itl)) \<and>
   j_bar_x (job_geometry opts xScale now baseY an i itl) =
     min (j_x1 (job_geometry opts xScale now baseY an i itl))
         (j_x2 (job_geometry opts xScale now baseY an i itl))"
  by (simp add: job_geometry_def Let_def)

lemma layout_nonempty:
  assumes "items \<noteq> []"
  shows "l_height (generate_layout opts now items) \<noteq> None \<and>
         l_baselineY (generate_layout opts now items) \<noteq> None \<and>
         l_scale (generate_layout opts now items) = x_scale opts now items \<and>
         x_scale opts now items \<noteq> None"
proof -
  from assms x_scale_Some_iff[of opts now items] obtain sc where
    "x_scale opts now items = Some sc" by auto
  then show ?thesis by (simp add: generate_layout_def Let_def)
qed

lemma layout_bars:
  assumes "g \<in> set (l_jobs (generate_layout opts now items))"
  shows "6 \<le> j_w g \<and> j_w g = max 6 (j_x2 g - j_x1 g) \<and> j_bar_x g = min (j_x1 g) (j_x2 g)"
proof (cases "x_scale opts now items")
  case None
  with assms show ?thesis by (simp add: generate_layout_def Let_def)
next
  case (Some sc)
  with assms obtain i itl baseY an where "g = job_geometry opts (project sc) now baseY an i itl"
    by (auto simp: generate_layout_def Let_def)
  then show ?thesis using job_geometry_bar by simp
qed

lemma project_zero_width:
  "domainStart sc = domainEnd sc \<Longrightarrow> project sc t = (rangeStart sc + rangeEnd sc) / 2"
  by (simp add: project_def)

lemma shared_start_domain:
  assumes "items \<noteq> []" "\<forall>it \<in> set items. it_start it = s \<and> it_end it = None"
    and "x_scale opts now items = Some sc"
  shows "domainStart sc = s \<and> domainEnd sc = now"
proof -
  have "it_start ` set items = {s}" using assms(1,2) by (cases items) auto
  moreover have "effective_end now ` set items = {now}"
    using assms(1,2) by (cases items) (auto simp: effective_end_def)
  ultimately show ?thesis using x_scale_domain(1,2)[OF assms(3)] by simp
qed

lemma reversed_interval_bar:
  assumes "effective_end now it < it_start it" "domainStart sc < domainEnd sc"
    "rangeStart sc \<le> rangeEnd sc"
  shows "j_w (job_geometry opts (project sc) now baseY an i (it, lane)) = 6 \<and>
         j_bar_x (job_geometry opts (project sc) now baseY an i (it, lane)) =
           project sc (effective_end now it)"
proof -
  have "project sc (effective_end now it) \<le> project sc (it_start it)"
    using assms by (intro project_mono) simp_all
  then show ?thesis by (simp add: job_geometry_def Let_def)
qed

text \<open>
  Claim C6, as amended. After parsing nothing can fail: once the rows have become
  items the generator returns a layout, every item gets its geometry, with a
  non-empty input the canvas height, the baseline and the scale are defined,
  and the one division of the schedule has a divisor of at least 1. When the time
  domain has zero width (the least start equals the greatest effective end) every
  instant is projected to the midpoint of the pixel range. Intervals that share one
  start and have no end span the domain from that start to now, so its width is zero
  only if now is that start. An interval whose effective end lies before its start
  gets a bar of the minimum width 6 that begins at the projection of its end (domain
  of positive width, range not inverted); every bar is at least 6 wide and begins at
  the smaller of its two projections. One interval from 5 to 5 is drawn at the
  midpoint 600 with width 6.
\<close>

theorem degenerate_inputs:
  "(make_items 0 rows = Inr ps \<and> layout_items ps = Some items \<longrightarrow>
      generateExperienceTimeline opts now rows = Inr (Some (generate_layout opts now items))) \<and>
   length (l_jobs (generate_layout opts now items)) = length items \<and>
   (items \<noteq> [] \<longrightarrow>
      l_height (generate_layout opts now items) \<noteq> None \<and>
      l_baselineY (generate_layout opts now items) \<noteq> None \<and>
      l_scale (generate_layout opts now items) = x_scale opts now items \<and>
      x_scale opts now items \<noteq> None) \<and>
   (\<forall>g \<in> set (l_jobs (generate_layout opts now items)).
      6 \<le> j_w g \<and> j_w g = max 6 (j_x2 g - j_x1 g) \<and> j_bar_x g = min (j_x1 g) (j_x2 g)) \<and>
   (domainStart sc = domainEnd sc \<longrightarrow> project sc t = (rangeStart sc + rangeEnd sc) / 2) \<and>
   (x_scale opts now items = Some sc \<longrightarrow>
      domainStart sc = Min (it_start ` set items) \<and>
      domainEnd sc = Max (effective_end now ` set items)) \<and>
   (items \<noteq> [] \<and> (\<forall>it \<in> set items. it_start it = s \<and> it_end it = None) \<and>
      x_scale opts now items = Some sc \<longrightarrow> domainStart sc = s \<and> domainEnd sc = now) \<and>
   (effective_end now it < it_start it \<and> domainStart sc < domainEnd sc \<and>
      rangeStart sc \<le> rangeEnd sc \<longrightarrow>
      j_w (job_geometry opts (project sc) now baseY an i (it, lane)) = 6 \<and>
      j_bar_x (job_geometry opts (project sc) now baseY an i (it, lane)) =
        project sc (effective_end now it)) \<and>
   a_durationPerJob (animation_plan T (length items)) = T * 0.75 / real (max 1 (length items)) \<and>
   map (\<lambda>g. (j_x1 g, j_x2 g, j_w g))
       (l_jobs (generate_layout default_options 100 [interval 0 5 (Some 5)])) = [(600, 600, 6)]"
proof -
  have a: "length (l_jobs (generate_layout opts now items)) = length items"
    by (rule layout_jobs(2))
  have b: "a_durationPerJob (animation_plan T (length items)) =
      T * 0.75 / real (max 1 (length items))"
    by (simp add: animation_plan_def Let_def)
  have c: "map (\<lambda>g. (j_x1 g, j_x2 g, j_w g))
       (l_jobs (generate_layout default_options 100 [interval 0 5 (Some 5)])) = [(600, 600, 6)]"
    by (simp add: generate_layout_def Let_def x_scale_def allocate_lanes_def sort_by_def
        assign_lane_def scan_lanes.simps interval_def effective_end_def default_options_def
        job_geometry_def project_def)
  have d: "generateExperienceTimeline opts now rows = Inr (Some (generate_layout opts now items))"
    if "make_items 0 rows = Inr ps" "layout_items ps = Some items"
    using that by (simp add: generateExperienceTimeline_def)
  show ?thesis
    using a b c d layout_nonempty[of items opts now] layout_bars[of _ opts now items]
      project_zero_width[of sc t] x_scale_domain(1,2)[of opts now items sc]
      shared_start_domain[of items s opts now sc]
      reversed_interval_bar[of now it sc opts baseY an i lane]
    by blast
qed

theorem degenerate_inputs_witness:
  "make_items 0 scenario_rows = Inr scenario_parsed \<and>
   layout_items scenario_parsed = Some scenario_items \<and>
   generateExperienceTimeline default_options 100 scenario_rows =
     Inr (Some (generate_layout default_options 100 scenario_items)) \<and>
   [interval 0 5 (Some 5)] \<noteq> [] \<and>
   x_scale default_options 100 [interval 0 5 (Some 5)] =
     Some \<lparr>domainStart = 5, domainEnd = 5, rangeStart = 30, rangeEnd = 1170\<rparr> \<and>
   project \<lparr>domainStart = 5, domainEnd = 5, rangeStart = 30, rangeEnd = 1170\<rparr> 77 = 600 \<and>
   l_height (generate_layout default_options 100 [interval 0 5 (Some 5)]) \<noteq> None"
proof -
  have x: "x_scale default_options 100 [interval 0 5 (Some 5)] =
     Some \<lparr>domainStart = 5, domainEnd = 5, rangeStart = 30, rangeEnd = 1170\<rparr>"
    by (simp add: x_scale_def default_options_def interval_def effective_end_def)
  from degenerate_inputs[where sc="\<lparr>domainStart = 5, domainEnd = 5, rangeStart = 30, rangeEnd = 1170\<rparr>"
      and t=77 and items="[interval 0 5 (Some 5)]" and opts=default_options and now=100]
  have "project \<lparr>domainStart = 5, domainEnd = 5, rangeStart = 30, rangeEnd = 1170\<rparr> 77 = 600"
    and "l_height (generate_layout default_options 100 [interval 0 5 (Some 5)]) \<noteq> None"
    by simp_all
  moreover have m: "make_items 0 scenario_rows = Inr scenario_parsed" by code_simp
  moreover have l: "layout_items scenario_parsed = Some scenario_items" by code_simp
  moreover from m l degenerate_inputs[where rows=scenario_rows and ps=scenario_parsed
      and items=scenario_items and opts=default_options and now=100]
  have "generateExperienceTimeline default_options 100 scenario_rows =
     Inr (Some (generate_layout default_options 100 scenario_items))" by blast
  ultimately show ?thesis using x by simp
qed

text \<open>
  The claim as first stated fails: a single interval that starts on 1 January 2020 and
  has no end, rendered in November 2023, has the domain from its start to now; its
  start is projected to 30, the left end of the range, not to the midpoint 600.
\<close>

theorem degenerate_inputs_counterexample:
  "it_end (interval 0 1577836800000 None) = None \<and>
   x_scale default_options 1700000000000 [interval 0 1577836800000 None] =
     Some \<lparr>domainStart = 1577836800000, domainEnd = 1700000000000,
           rangeStart = 30, rangeEnd = 1170\<rparr> \<and>
   project \<lparr>domainStart = 1577836800000, domainEnd = 1700000000000,
            rangeStart = 30, rangeEnd = 1170\<rparr> 1577836800000 = 30 \<and>
   (30 + 1170) / 2 = (600::real) \<and>
   map (\<lambda>g. (j_x1 g, j_x2 g))
     (l_jobs (generate_layout default_options 1700000000000 [interval 0 1577836800000 None]))
     = [(30, 1170)]"
  by (simp add: generate_layout_def Let_def x_scale_def allocate_lanes_def sort_by_def
        assign_lane_def scan_lanes.simps interval_def effective_end_def default_options_def
        job_geometry_def project_def)

section \<open>Activity chart helpers: proofs\<close>

lemma ticks_loop_exit: "\<not> v \<le> maxCount \<Longrightarrow> ticks_loop maxCount step v acc = Some acc"
  by (subst ticks_loop.simps) simp

lemma ticks_loop_iter:
  "v \<le> maxCount \<Longrightarrow> ticks_loop maxCount step v acc = ticks_loop maxCount step (v + step) (acc @ [v])"
  by (subst ticks_loop.simps) simp

lemma ticks_loop_steps:
  "1 \<le> step \<Longrightarrow> maxCount < v + int n * step \<Longrightarrow> v + int n * step \<le> maxCount + step \<Longrightarrow>
     ticks_loop maxCount step v acc = Some (acc @ stepped v step n)"
proof (induction n arbitrary: v acc)
  case 0
  then show ?case by (simp add: ticks_loop_exit)
next
  case (Suc n)
  have nn: "0 \<le> int n * step" using Suc.prems(1) by simp
  have e: "v + int (Suc n) * step = v + step + int n * step" by (simp add: algebra_simps)
  have "v \<le> maxCount" using Suc.prems(3) nn unfolding e by linarith
  moreover have "ticks_loop maxCount step (v + step) (acc @ [v]) = Some ((acc @ [v]) @ stepped (v + step) step n)"
    using Suc.prems by (intro Suc.IH) (simp_all add: algebra_simps)
  ultimately show ?case by (simp add: ticks_loop_iter)
qed

lemma stepped_map: "stepped v step n = map (\<lambda>k. v + int k * step) [0..<n]"
proof (induction n arbitrary: v)
  case 0 show ?case by simp
next
  case (Suc n)
  have "map (\<lambda>k. v + int k * step) [0..<Suc n] = v # map (\<lambda>k. (v + step) + int k * step) [0..<n]"
    by (simp add: upt_conv_Cons map_Suc_upt[symmetric] algebra_simps del: upt_Suc)
  with Suc show ?case by simp
qed

lemma tick_step_max:
  assumes "0 \<le> maxCount" "2 \<le> targetTicks"
  shows "tick_step maxCount targetTicks =
           max 1 \<lceil>real_of_int maxCount / real_of_int (targetTicks - 1)\<rceil>"
proof -
  have "0 \<le> real_of_int maxCount / real_of_int (targetTicks - 1)"
    using assms by simp
  then have "0 \<le> \<lceil>real_of_int maxCount / real_of_int (targetTicks - 1)\<rceil>"
    by linarith
  then show ?thesis unfolding tick_step_def Let_def by (simp only: max_def split: if_splits) linarith
qed

lemma ticks_loop_from_zero:
  assumes "0 \<le> maxCount" "1 \<le> step"
  shows "ticks_loop maxCount step 0 [] =
           Some (map (\<lambda>k. int k * step) [0..<Suc (nat (maxCount div step))])"
proof -
  have q: "0 \<le> maxCount div step" using assms by (simp add: pos_imp_zdiv_nonneg_iff)
  have dm: "maxCount div step * step + maxCount mod step = maxCount" by simp
  have m0: "0 \<le> maxCount mod step" and m1: "maxCount mod step < step"
    using assms(2) by simp_all
  have lo: "maxCount div step * step \<le> maxCount" using dm m0 by linarith
  have hi: "maxCount < maxCount div step * step + step" using dm m1 by linarith
  have "ticks_loop maxCount step 0 [] = Some ([] @ stepped 0 step (Suc (nat (maxCount div step))))"
    using q lo hi assms(2) by (intro ticks_loop_steps) (simp_all add: algebra_simps)
  then show ?thesis by (simp add: stepped_map del: upt_Suc)
qed

lemma multiples_sorted: "1 \<le> step \<Longrightarrow> sorted_wrt (<) (map (\<lambda>k. int k * step) [0..<n])"
  by (simp add: sorted_wrt_map sorted_wrt_iff_nth_less del: upt_Suc)

lemma multiples_last: "last (map (\<lambda>k. int k * step) [0..<Suc n]) = int n * step"
  by simp

lemma multiples_hd: "hd (map (\<lambda>k. int k * step) [0..<Suc n]) = 0"
  by (simp add: upt_conv_Cons del: upt_Suc)

text \<open>
  Claim C9. For every maximum \<open>0 \<le> maxCount\<close> and target count \<open>2 \<le> targetTicks\<close>
  the call returns; its result starts at 0, advances by the fixed step
  \<open>max 1 \<lceil>maxCount / (targetTicks - 1)\<rceil>\<close>, is strictly ascending and ends with
  \<open>maxCount\<close>, which is appended exactly when the step does not divide it.
\<close>

theorem niceYTicks_spec:
  assumes "0 \<le> maxCount" and "2 \<le> targetTicks"
  shows "\<exists>step ticks.
           step = max 1 \<lceil>real_of_int maxCount / real_of_int (targetTicks - 1)\<rceil> \<and>
           niceYTicks maxCount targetTicks = Some ticks \<and>
           ticks = map (\<lambda>k. int k * step) [0..<Suc (nat (maxCount div step))]
                     @ (if step dvd maxCount then [] else [maxCount]) \<and>
           sorted_wrt (<) ticks \<and> hd ticks = 0 \<and> last ticks = maxCount"
proof -
  define step where "step = max 1 \<lceil>real_of_int maxCount / real_of_int (targetTicks - 1)\<rceil>"
  define n where "n = nat (maxCount div step)"
  define base where "base = map (\<lambda>k. int k * step) [0..<Suc n]"
  have s1: "1 \<le> step" by (simp add: step_def)
  have ts: "tick_step maxCount targetTicks = step"
    using assms by (simp add: tick_step_max step_def)
  have q: "0 \<le> maxCount div step" using assms(1) s1 by (simp add: pos_imp_zdiv_nonneg_iff)
  have nq: "int n = maxCount div step" using q by (simp add: n_def)
  have loop: "ticks_loop maxCount step 0 [] = Some base"
    using ticks_loop_from_zero[OF assms(1) s1] by (simp only: base_def n_def)
  have bl: "last base = maxCount div step * step"
    unfolding base_def multiples_last nq ..
  have bne: "base \<noteq> []" by (simp add: base_def)
  have dv: "(maxCount div step * step = maxCount) = (step dvd maxCount)"
    by (metis dvd_div_mult_self dvd_triv_right)
  have lo: "maxCount div step * step \<le> maxCount"
    using s1 by (metis div_mult_mod_eq pos_mod_sign add_increasing2 order_refl zero_less_one order_less_le_trans)
  have res: "niceYTicks maxCount targetTicks =
               Some (base @ (if step dvd maxCount then [] else [maxCount]))"
    using assms(2) by (simp add: niceYTicks_def ts loop push_max_def bl bne dv)
  have srt: "sorted_wrt (<) (base @ (if step dvd maxCount then [] else [maxCount]))"
  proof (cases "step dvd maxCount")
    case True
    then show ?thesis using multiples_sorted[OF s1] by (simp add: base_def del: upt_Suc)
  next
    case False
    have "\<forall>t \<in> set base. t < maxCount"
    proof
      fix t assume "t \<in> set base"
      then have "\<exists>k. k \<le> n \<and> t = int k * step"
        unfolding base_def set_map set_upt by (elim imageE) (auto simp: less_Suc_eq_le)
      then obtain k where k: "k \<le> n" "t = int k * step" by blast
      have "int k * step \<le> int n * step" using k(1) s1 by (simp add: mult_right_mono)
      moreover have "int n * step < maxCount" using lo dv False nq by simp
      ultimately show "t < maxCount" using k(2) by simp
    qed
    then show ?thesis using False multiples_sorted[OF s1, of "Suc n"]
      by (simp add: sorted_wrt_append base_def del: upt_Suc)
  qed
  have h: "hd (base @ (if step dvd maxCount then [] else [maxCount])) = 0"
    using bne multiples_hd[of step n] by (simp add: base_def del: upt_Suc)
  have l: "last (base @ (if step dvd maxCount then [] else [maxCount])) = maxCount"
    using bne bl dv by simp
  show ?thesis
    using res srt h l unfolding base_def n_def step_def by blast
qed

theorem niceYTicks_spec_witness:
  "(0::int) \<le> 10 \<and> (2::int) \<le> 5 \<and> niceYTicks 10 5 = Some [0, 3, 6, 9, 10]"
proof -
  have c: "max 1 \<lceil>real_of_int 10 / real_of_int (5 - 1)\<rceil> = (3::int)"
    by simp
  have u: "[0..<Suc (nat (10 div (3::int)))] = [0, 1, 2, 3]"
    by (simp add: upt_conv_Cons)
  have "\<exists>step ticks.
           step = max 1 \<lceil>real_of_int 10 / real_of_int (5 - 1)\<rceil> \<and>
           niceYTicks 10 5 = Some ticks \<and>
           ticks = map (\<lambda>k. int k * step) [0..<Suc (nat (10 div step))]
                     @ (if step dvd 10 then [] else [10]) \<and>
           sorted_wrt (<) ticks \<and> hd ticks = 0 \<and> last ticks = 10"
    by (rule niceYTicks_spec) simp_all
  then obtain step ticks where
    a: "step = max 1 \<lceil>real_of_int 10 / real_of_int (5 - 1)\<rceil>" and
    b: "niceYTicks 10 5 = Some ticks" and 
    t: "ticks = map (\<lambda>k. int k * step) [0..<Suc (nat (10 div step))]
                     @ (if step dvd 10 then [] else [10])"
    by blast
  have s3: "step = 3" using a unfolding c .
  have "ticks = [0, 3, 6, 9, 10]" unfolding t s3 u by simp
  with b show ?thesis by simp
qed

lemma path_loop_sum:
  "path_loop points i L =
     L + (\<Sum>k = i..<length points. segment_length (points ! (k - 1)) (points ! k))"
proof (induction points i L rule: path_loop.induct)
  case (1 points i L)
  show ?case
  proof (cases "i < length points")
    case True
    then show ?thesis
      using 1 by (subst path_loop.simps) (simp add: sum.atLeast_Suc_lessThan hypot_def segment_length_def)
  next
    case False
    then show ?thesis by (subst path_loop.simps) simp
  qed
qed

text \<open>
  Claim C8. The computed path length is the sum of the Euclidean lengths of the
  consecutive segments, raised to at least 1; the polyline (0,0), (3,4), (3,0) has
  length 9, and a path of zero length (or with no segment at all) has length 1.
\<close>

theorem computePathLength_sum:
  "computePathLength points = max 1 (segment_sum points) \<and>
   computePathLength [\<lparr>pt_x = 0, pt_y = 0\<rparr>, \<lparr>pt_x = 3, pt_y = 4\<rparr>, \<lparr>pt_x = 3, pt_y = 0\<rparr>] = 9 \<and>
   computePathLength [\<lparr>pt_x = 2, pt_y = 7\<rparr>, \<lparr>pt_x = 2, pt_y = 7\<rparr>] = 1 \<and>
   computePathLength [] = 1"
proof -
  have g: "computePathLength ps = max 1 (segment_sum ps)" for ps
    by (simp add: computePathLength_def path_loop_sum segment_sum_def)
  have s25: "sqrt 25 = 5" by (rule real_sqrt_unique) simp_all
  have s16: "sqrt 16 = 4" by (rule real_sqrt_unique) simp_all
  have "segment_sum [\<lparr>pt_x = 0, pt_y = 0\<rparr>, \<lparr>pt_x = 3, pt_y = 4\<rparr>, \<lparr>pt_x = 3, pt_y = 0\<rparr>] = 9"
    by (simp add: segment_sum_def segment_length_def sum.atLeast_Suc_lessThan s25 s16)
  moreover have "segment_sum [\<lparr>pt_x = 2, pt_y = 7\<rparr>, \<lparr>pt_x = 2, pt_y = 7\<rparr>] = 0"
    by (simp add: segment_sum_def segment_length_def sum.atLeast_Suc_lessThan)
  moreover have "segment_sum [] = 0" by (simp add: segment_sum_def)
  ultimately show ?thesis by (simp add: g)
qed

end
